(* ===== verification/Prelude.thy ===== *)
theory Prelude
  imports Main "HOL-Library.Multiset" "HOL-Library.Product_Lexorder"
begin

text \<open>
  Shared vocabulary of the development. A JavaScript string is a list of UTF-16
  code units (\<open>jstring = cu list\<close>, \<open>cu = nat\<close>): \<open>length\<close>, indices and
  \<open>slice\<close> in \<^verbatim>\<open>src/res/deng.js\<close> count code units, and so does the model.
  ASCII literals are written \<open>js_lit ''...''\<close>. This theory also holds the
  character classes of ECMAScript regular expressions that the program relies on
  (\<^verbatim>\<open>\s\<close>, \<^verbatim>\<open>\b\<close>'s word characters, the case canonicalisation of the
  \<^verbatim>\<open>i\<close> flag), the string primitives \<^verbatim>\<open>String.prototype.split\<close>,
  \<^verbatim>\<open>Array.prototype.join\<close>, \<^verbatim>\<open>indexOf\<close>, and generic lemmas on lists and options
  that the component theories share.
\<close>

named_theorems str_simps "evaluation rules of the string primitives"

type_synonym cu = nat
type_synonym jstring = "cu list"

definition js_lit :: "string \<Rightarrow> jstring" where
  "js_lit s = map of_char s"

subsection \<open>Code units the program mentions\<close>

abbreviation (input) u_nl :: cu where "u_nl \<equiv> 10"
abbreviation (input) u_sp :: cu where "u_sp \<equiv> 32"
abbreviation (input) u_hash :: cu where "u_hash \<equiv> 35"
abbreviation (input) u_amp :: cu where "u_amp \<equiv> 38"
abbreviation (input) u_apos :: cu where "u_apos \<equiv> 39"
abbreviation (input) u_lpar :: cu where "u_lpar \<equiv> 40"
abbreviation (input) u_rpar :: cu where "u_rpar \<equiv> 41"
abbreviation (input) u_star :: cu where "u_star \<equiv> 42"
abbreviation (input) u_plus :: cu where "u_plus \<equiv> 43"
abbreviation (input) u_comma :: cu where "u_comma \<equiv> 44"
abbreviation (input) u_hyphen :: cu where "u_hyphen \<equiv> 45"
abbreviation (input) u_colon :: cu where "u_colon \<equiv> 58"
abbreviation (input) u_semi :: cu where "u_semi \<equiv> 59"
abbreviation (input) u_lt :: cu where "u_lt \<equiv> 60"
abbreviation (input) u_gt :: cu where "u_gt \<equiv> 62"
abbreviation (input) u_lbrack :: cu where "u_lbrack \<equiv> 91"
abbreviation (input) u_bslash :: cu where "u_bslash \<equiv> 92"
abbreviation (input) u_rbrack :: cu where "u_rbrack \<equiv> 93"
abbreviation (input) u_lbrace :: cu where "u_lbrace \<equiv> 123"
abbreviation (input) u_bar :: cu where "u_bar \<equiv> 124"
abbreviation (input) u_rbrace :: cu where "u_rbrace \<equiv> 125"

subsection \<open>Character classes of ECMAScript regular expressions\<close>

text \<open>\<^verbatim>\<open>\s\<close>: WhiteSpace and LineTerminator code units (ECMA-262, 12.2 and 12.3).\<close>

definition is_js_space :: "cu \<Rightarrow> bool" where
  "is_js_space c \<longleftrightarrow>
     (9 \<le> c \<and> c \<le> 13) \<or> c = 32 \<or> c = 160 \<or> c = 5760 \<or> (8192 \<le> c \<and> c \<le> 8202) \<or>
     c = 8232 \<or> c = 8233 \<or> c = 8239 \<or> c = 8287 \<or> c = 12288 \<or> c = 65279"

text \<open>IsWordChar of a pattern without the \<^verbatim>\<open>u\<close> flag: \<^verbatim>\<open>[A-Za-z0-9_]\<close>.\<close>

definition is_word_char :: "cu \<Rightarrow> bool" where
  "is_word_char c \<longleftrightarrow>
     (48 \<le> c \<and> c \<le> 57) \<or> (65 \<le> c \<and> c \<le> 90) \<or> (97 \<le> c \<and> c \<le> 122) \<or> c = 95"

text \<open>
  \<open>toUppercase\<close> of a single code unit, for Basic Latin and Latin-1 Supplement
  (code units below 256); \<open>\<ss>\<close> upper-cases to two code units and is therefore kept.
  Code units from 256 on are left unchanged: the model does not carry the Unicode case
  tables beyond Latin-1.
\<close>

definition js_upper :: "cu \<Rightarrow> cu" where
  "js_upper c =
     (if 97 \<le> c \<and> c \<le> 122 then c - 32
      else if c = 181 then 924
      else if 224 \<le> c \<and> c \<le> 254 \<and> c \<noteq> 247 then c - 32
      else if c = 255 then 376
      else c)"

text \<open>Canonicalize (ECMA-262, 22.2.2.7.3) for a pattern without the \<^verbatim>\<open>u\<close>/\<^verbatim>\<open>v\<close> flags.\<close>

definition canon :: "bool \<Rightarrow> cu \<Rightarrow> cu" where
  "canon ic c = (if \<not> ic then c else (let u = js_upper c in if 128 \<le> c \<and> u < 128 then c else u))"

subsection \<open>String primitives\<close>

definition starts_with :: "jstring \<Rightarrow> jstring \<Rightarrow> bool" where
  "starts_with p s \<longleftrightarrow> take (length p) s = p"

definition ends_with :: "jstring \<Rightarrow> jstring \<Rightarrow> bool" where
  "ends_with p s \<longleftrightarrow> length p \<le> length s \<and> drop (length s - length p) s = p"

text \<open>\<^verbatim>\<open>s.indexOf(p)\<close> with \<open>-1\<close> as \<open>None\<close>.\<close>

fun index_of :: "jstring \<Rightarrow> jstring \<Rightarrow> nat option" where
  "index_of p [] = (if p = [] then Some 0 else None)"
| "index_of p (c # cs) = (if starts_with p (c # cs) then Some 0 else map_option Suc (index_of p cs))"

text \<open>
  \<^verbatim>\<open>s.split(sep)\<close> for a string separator (ECMA-262, 22.1.3.23): the pieces between the
  leftmost non-overlapping occurrences of \<open>sep\<close>; the empty separator splits into code
  units.
\<close>

function js_split :: "jstring \<Rightarrow> jstring \<Rightarrow> jstring list" where
  "js_split sep s =
     (if sep = [] then map (\<lambda>c. [c]) s
      else case index_of sep s of
        None \<Rightarrow> [s]
      | Some j \<Rightarrow> take j s # js_split sep (drop (j + length sep) s))"
  by pat_completeness auto

text \<open>\<^verbatim>\<open>arr.join(sep)\<close>.\<close>

fun js_join :: "jstring \<Rightarrow> jstring list \<Rightarrow> jstring" where
  "js_join sep [] = []"
| "js_join sep [x] = x"
| "js_join sep (x # y # ys) = x @ sep @ js_join sep (y # ys)"

text \<open>\<^verbatim>\<open>arr[i]\<close>: \<open>None\<close> is \<^verbatim>\<open>undefined\<close>, read past the end of the array.\<close>

definition js_nth :: "'a list \<Rightarrow> nat \<Rightarrow> 'a option" where
  "js_nth xs i = (if i < length xs then Some (xs ! i) else None)"

text \<open>The first candidate, in order, that succeeds: the ordered choice of backtracking.\<close>

fun first_some :: "('a \<Rightarrow> 'b option) \<Rightarrow> 'a list \<Rightarrow> 'b option" where
  "first_some f [] = None"
| "first_some f (x # xs) = (case f x of None \<Rightarrow> first_some f xs | Some y \<Rightarrow> Some y)"

text \<open>The errors a JavaScript run of the program can raise.\<close>

datatype js_error = TypeError

text \<open>\<^verbatim>\<open>arr.map(f)\<close> with a callback that may throw: the first exception propagates.\<close>

fun map_err :: "('a \<Rightarrow> js_error + 'b) \<Rightarrow> 'a list \<Rightarrow> js_error + 'b list" where
  "map_err f [] = Inr []"
| "map_err f (x # xs) =
     (case f x of Inl e \<Rightarrow> Inl e | Inr y \<Rightarrow> (case map_err f xs of Inl e \<Rightarrow> Inl e | Inr ys \<Rightarrow> Inr (y # ys)))"
text \<open>Sequencing of calls that may throw (the error monad on the sum type): the first
  exception propagates and the later calls do not run.\<close>

definition sum_bind :: "'e + 'a \<Rightarrow> ('a \<Rightarrow> 'e + 'b) \<Rightarrow> 'e + 'b" where
  "sum_bind m f = (case m of Inl e \<Rightarrow> Inl e | Inr x \<Rightarrow> f x)"

subsection \<open>Lemmas\<close>

lemma starts_with_length: "starts_with p s \<Longrightarrow> length p \<le> length s"
proof -
  assume "starts_with p s"
  then have "length (take (length p) s) = length p" by (simp add: starts_with_def)
  then show ?thesis by simp
qed

lemma index_of_Some:
  "index_of p s = Some j \<Longrightarrow> j + length p \<le> length s \<and> starts_with p (drop j s)"
proof (induction p s arbitrary: j rule: index_of.induct)
  case (1 p)
  then show ?case by (auto simp: starts_with_def split: if_splits)
next
  case (2 p c cs)
  then show ?case
    by (auto dest: starts_with_length split: if_splits)
qed

lemma index_of_first:
  "index_of p s = Some j \<Longrightarrow> k < j \<Longrightarrow> \<not> starts_with p (drop k s)"
proof (induction p s arbitrary: j k rule: index_of.induct)
  case (1 p)
  then show ?case by (simp split: if_splits)
next
  case (2 p c cs)
  then show ?case by (cases k) (auto split: if_splits)
qed

lemma index_of_None:
  "index_of p s = None \<Longrightarrow> k \<le> length s \<Longrightarrow> \<not> starts_with p (drop k s)"
proof (induction p s arbitrary: k rule: index_of.induct)
  case (1 p)
  then show ?case by (simp add: starts_with_def split: if_splits)
next
  case (2 p c cs)
  then show ?case by (cases k) (auto split: if_splits)
qed

lemma index_of_le: "index_of p s = Some j \<Longrightarrow> j \<le> length s"
  using index_of_Some by fastforce

termination js_split
  by (relation "measure (\<lambda>(sep, s). length s)") (auto dest!: index_of_Some intro!: diff_less)

declare js_split.simps [simp del]

lemma js_split_Nil_sep [str_simps]: "js_split [] s = map (\<lambda>c. [c]) s"
  by (simp add: js_split.simps)

lemma js_split_None [str_simps]:
  "sep \<noteq> [] \<Longrightarrow> index_of sep s = None \<Longrightarrow> js_split sep s = [s]"
  by (simp add: js_split.simps)

lemma js_split_Some [str_simps]:
  "sep \<noteq> [] \<Longrightarrow> index_of sep s = Some j \<Longrightarrow>
   js_split sep s = take j s # js_split sep (drop (j + length sep) s)"
  by (simp add: js_split.simps)

lemma js_split_not_Nil: "sep \<noteq> [] \<Longrightarrow> js_split sep s \<noteq> []"
  by (cases "index_of sep s") (simp_all add: str_simps)

lemma js_split_eq_Nil_iff [simp]: "js_split sep s = [] \<longleftrightarrow> sep = [] \<and> s = []"
  by (cases "sep = []") (simp_all add: js_split_not_Nil str_simps)

lemma js_join_Cons:
  "ys \<noteq> [] \<Longrightarrow> js_join sep (x # ys) = x @ sep @ js_join sep ys"
  by (cases ys) simp_all

lemma starts_with_drop_take:
  "starts_with p (drop j s) \<Longrightarrow> j + length p \<le> length s \<Longrightarrow>
   take j s @ p @ drop (j + length p) s = s"
  by (simp add: starts_with_def) (metis append_take_drop_id drop_drop add.commute take_add)

lemma first_some_Some:
  "first_some f xs = Some y \<Longrightarrow> \<exists>x\<in>set xs. f x = Some y"
  by (induction xs) (auto split: option.splits)

lemma first_some_None_iff:
  "first_some f xs = None \<longleftrightarrow> (\<forall>x\<in>set xs. f x = None)"
  by (induction xs) (auto split: option.splits)

lemma first_some_append:
  "first_some f (xs @ ys) = (case first_some f xs of None \<Rightarrow> first_some f ys | Some y \<Rightarrow> Some y)"
  by (induction xs) (auto split: option.splits)

lemma first_some_leftmost:
  "first_some f xs = Some y \<Longrightarrow>
   \<exists>k<length xs. f (xs ! k) = Some y \<and> (\<forall>l<k. f (xs ! l) = None)"
proof (induction xs)
  case Nil
  then show ?case by simp
next
  case (Cons x xs)
  show ?case
  proof (cases "f x")
    case None
    with Cons obtain k where "k < length xs" "f (xs ! k) = Some y" "\<forall>l<k. f (xs ! l) = None"
      by auto
    with None show ?thesis
      by (intro exI [of _ "Suc k"]) (auto simp: less_Suc_eq_0_disj)
  next
    case (Some z)
    with Cons.prems show ?thesis by (intro exI [of _ 0]) simp
  qed
qed

lemma js_nth_Some_iff [simp]: "js_nth xs i = Some x \<longleftrightarrow> i < length xs \<and> xs ! i = x"
  by (auto simp: js_nth_def)

lemma js_nth_None_iff [simp]: "js_nth xs i = None \<longleftrightarrow> length xs \<le> i"
  by (auto simp: js_nth_def)

lemma canon_False [simp]: "canon False c = c"
  by (simp add: canon_def)

lemma is_js_space_js_upper: "is_js_space (js_upper c) \<longleftrightarrow> is_js_space c"
  by (auto simp: js_upper_def is_js_space_def)

text \<open>
  The \<^verbatim>\<open>i\<close> flag never moves a code unit into or out of \<^verbatim>\<open>\s\<close>: under it, a
  class built from \<^verbatim>\<open>\s\<close> or \<^verbatim>\<open>\S\<close> matches the same code units as without it.
\<close>

lemma is_js_space_canon [simp]: "is_js_space (canon ic c) \<longleftrightarrow> is_js_space c"
  by (simp add: canon_def Let_def is_js_space_js_upper)

lemma dropWhile_snoc: "\<not> P c \<Longrightarrow> dropWhile P (xs @ [c]) = dropWhile P xs @ [c]"
  by (induction xs) auto

lemma js_lit_Nil [str_simps]: "js_lit [] = []"
  and js_lit_Cons [str_simps]: "js_lit (x # xs) = of_char x # js_lit xs"
  by (simp_all add: js_lit_def)

lemma length_js_lit [simp]: "length (js_lit s) = length s"
  by (simp add: js_lit_def)

lemma map_err_Inr_iff: "map_err f xs = Inr ys \<longleftrightarrow> list_all2 (\<lambda>x y. f x = Inr y) xs ys"
proof (induction xs arbitrary: ys)
  case Nil
  then show ?case by auto
next
  case (Cons x xs)
  show ?case
  proof (cases "f x")
    case (Inl e)
    then show ?thesis by (cases ys) auto
  next
    case (Inr y)
    then show ?thesis using Cons.IH by (cases ys; cases "map_err f xs") auto
  qed
qed

lemma map_err_Inl_iff: "(\<exists>e. map_err f xs = Inl e) \<longleftrightarrow> (\<exists>x\<in>set xs. \<exists>e. f x = Inl e)"
  by (induction xs) (auto split: sum.splits)

lemma map_err_total:
  "(\<And>x. x \<in> set xs \<Longrightarrow> \<exists>y. f x = Inr y) \<Longrightarrow> \<exists>ys. map_err f xs = Inr ys"
  by (induction xs) (fastforce split: sum.splits)+

lemma js_error_TypeError: "(\<exists>e. x = Inl e) \<longleftrightarrow> x = Inl TypeError"
  using js_error.exhaust by blast

lemma map_canon_False [simp]: "map (canon False) xs = xs"
  by (induction xs) simp_all

lemma index_of_single_None: "c \<notin> set s \<Longrightarrow> index_of [c] s = None"
  by (induction s) (auto simp: starts_with_def)

lemma index_of_single_Some: "c \<notin> set x \<Longrightarrow> index_of [c] (x @ c # y) = Some (length x)"
  by (induction x) (auto simp: starts_with_def)

lemma js_split_join_single:
  "ls \<noteq> [] \<Longrightarrow> (\<forall>l\<in>set ls. c \<notin> set l) \<Longrightarrow> js_split [c] (js_join [c] ls) = ls"
proof (induction ls)
  case Nil
  then show ?case by simp
next
  case (Cons x ys)
  show ?case
  proof (cases "ys = []")
    case True
    with Cons.prems show ?thesis by (simp add: js_split_None index_of_single_None)
  next
    case False
    then have j: "js_join [c] (x # ys) = x @ c # js_join [c] ys" by (simp add: js_join_Cons)
    with Cons.prems have "index_of [c] (js_join [c] (x # ys)) = Some (length x)"
      by (simp add: index_of_single_Some)
    with Cons False j show ?thesis by (simp add: js_split_Some)
  qed
qed

lemma index_of_single_take: "index_of [c] s = Some j \<Longrightarrow> c \<notin> set (take j s)"
  by (induction s arbitrary: j) (auto simp: starts_with_def split: if_splits)

lemma index_of_single_None_iff: "index_of [c] s = None \<longleftrightarrow> c \<notin> set s"
  by (induction s) (auto simp: starts_with_def)

lemma js_split_single_pieces: "l \<in> set (js_split [c] s) \<Longrightarrow> c \<notin> set l"
proof (induction "[c]" s rule: js_split.induct)
  case (1 s)
  show ?case
  proof (cases "index_of [c] s")
    case None
    with 1 show ?thesis by (simp add: js_split_None index_of_single_None_iff)
  next
    case (Some j)
    with 1 show ?thesis by (auto simp: js_split_Some dest: index_of_single_take)
  qed
qed

lemma js_join_split: "sep \<noteq> [] \<Longrightarrow> js_join sep (js_split sep s) = s"
proof (induction sep s rule: js_split.induct)
  case (1 sep s)
  show ?case
  proof (cases "index_of sep s")
    case None
    with 1 show ?thesis by (simp add: js_split_None)
  next
    case (Some j)
    then have j: "j + length sep \<le> length s" and st: "starts_with sep (drop j s)"
      using index_of_Some by blast+
    have "take j s @ sep @ drop (j + length sep) s = s"
    proof -
      have "take (length sep) (drop j s) = sep" using st by (simp add: starts_with_def)
      then have "take j s @ sep @ drop (length sep) (drop j s) = s"
        by (metis append_take_drop_id)
      then show ?thesis by (simp add: add.commute)
    qed
    with 1 Some show ?thesis
      by (simp add: js_split_Some js_join_Cons js_split_not_Nil)
  qed
qed

lemma sum_bind_Inr [simp]: "sum_bind (Inr x) f = f x"
  by (simp add: sum_bind_def)

lemma sum_bind_Inl [simp]: "sum_bind (Inl e) f = Inl e"
  by (simp add: sum_bind_def)

end
