(* ===== verification/JsRegex.thy ===== *)
theory JsRegex
  imports Prelude
begin

text \<open>
  The fragment of ECMAScript regular expressions that \<^verbatim>\<open>src/res/deng.js\<close> builds and
  uses: literal code units, character classes and their greedy \<^verbatim>\<open>*\<close>, the assertions
  \<^verbatim>\<open>^\<close>, \<^verbatim>\<open>$\<close> and \<^verbatim>\<open>\b\<close>, sequence, alternation and the greedy \<^verbatim>\<open>?\<close>.
  \<open>rx_m\<close> is the pattern semantics of ECMA-262 (22.2.2) for this fragment: a matcher
  takes a continuation and a position and returns the end position of the whole match or
  \<open>None\<close> (failure); alternatives and repetitions try their choices in the
  specification's order, so the first match found is the one JavaScript returns.
  \<open>rx_acc\<close> is the declarative reading (which spans a pattern can match), and the
  matcher is proved sound and complete for it. \<open>re_exec\<close> and \<open>re_test\<close> are
  \<^verbatim>\<open>RegExp.prototype.exec\<close> and \<^verbatim>\<open>test\<close> of a non-global regular expression: the
  leftmost start position at which the pattern matches.
\<close>

datatype cclass =
    CRanges "(cu \<times> cu) list"     \<comment> \<open>\<^verbatim>\<open>[a-b...]\<close>\<close>
  | CNegRanges "(cu \<times> cu) list"  \<comment> \<open>\<^verbatim>\<open>[^a-b...]\<close>\<close>
  | CSpace                      \<comment> \<open>\<^verbatim>\<open>\s\<close>\<close>
  | CNonSpace                   \<comment> \<open>\<^verbatim>\<open>\S\<close>\<close>

fun cls_mem :: "cclass \<Rightarrow> cu \<Rightarrow> bool" where
  "cls_mem (CRanges rs) c = list_ex (\<lambda>(a, b). a \<le> c \<and> c \<le> b) rs"
| "cls_mem (CNegRanges rs) c = (\<not> list_ex (\<lambda>(a, b). a \<le> c \<and> c \<le> b) rs)"
| "cls_mem CSpace c = is_js_space c"
| "cls_mem CNonSpace c = (\<not> is_js_space c)"

datatype rx =
    RChr cu            \<comment> \<open>a literal code unit\<close>
  | RCls cclass        \<comment> \<open>one code unit of a class\<close>
  | RStar cclass       \<comment> \<open>greedy \<^verbatim>\<open>*\<close> of a class\<close>
  | RBol               \<comment> \<open>\<^verbatim>\<open>^\<close> (no \<^verbatim>\<open>m\<close> flag)\<close>
  | REol               \<comment> \<open>\<^verbatim>\<open>$\<close> (no \<^verbatim>\<open>m\<close> flag)\<close>
  | RWordB             \<comment> \<open>\<^verbatim>\<open>\b\<close>\<close>
  | RSeq rx rx
  | RAlt rx rx
  | ROpt rx            \<comment> \<open>greedy \<^verbatim>\<open>?\<close>\<close>
  | REmpty

text \<open>IsWordChar(e) of ECMA-262: false outside the string.\<close>

definition word_at :: "jstring \<Rightarrow> nat \<Rightarrow> bool" where
  "word_at s i \<longleftrightarrow> i < length s \<and> is_word_char (s ! i)"

definition at_boundary :: "jstring \<Rightarrow> nat \<Rightarrow> bool" where
  "at_boundary s i \<longleftrightarrow> (0 < i \<and> word_at s (i - 1)) \<noteq> word_at s i"

text \<open>How many code units of the class follow position \<open>i\<close>.\<close>

definition cls_run :: "cclass \<Rightarrow> jstring \<Rightarrow> nat \<Rightarrow> nat" where
  "cls_run cl s i = length (takeWhile (cls_mem cl) (drop i s))"

primrec rx_m :: "bool \<Rightarrow> jstring \<Rightarrow> rx \<Rightarrow> (nat \<Rightarrow> nat option) \<Rightarrow> nat \<Rightarrow> nat option" where
  "rx_m ic s (RChr c) k i =
     (if i < length s \<and> canon ic (s ! i) = canon ic c then k (Suc i) else None)"
| "rx_m ic s (RCls cl) k i = (if i < length s \<and> cls_mem cl (s ! i) then k (Suc i) else None)"
| "rx_m ic s (RStar cl) k i = first_some k (rev [i..<Suc (i + cls_run cl s i)])"
| "rx_m ic s RBol k i = (if i = 0 then k i else None)"
| "rx_m ic s REol k i = (if i = length s then k i else None)"
| "rx_m ic s RWordB k i = (if at_boundary s i then k i else None)"
| "rx_m ic s (RSeq a b) k i = rx_m ic s a (rx_m ic s b k) i"
| "rx_m ic s (RAlt a b) k i =
     (case rx_m ic s a k i of None \<Rightarrow> rx_m ic s b k i | Some e \<Rightarrow> Some e)"
| "rx_m ic s (ROpt a) k i =
     (case rx_m ic s a (\<lambda>j. if j = i then None else k j) i of None \<Rightarrow> k i | Some e \<Rightarrow> Some e)"
| "rx_m ic s REmpty k i = k i"

text \<open>The declarative semantics: \<open>rx_acc ic s r i j\<close> when \<open>r\<close> can match \<open>s[i..j)\<close>.\<close>

primrec rx_acc :: "bool \<Rightarrow> jstring \<Rightarrow> rx \<Rightarrow> nat \<Rightarrow> nat \<Rightarrow> bool" where
  "rx_acc ic s (RChr c) i j \<longleftrightarrow> j = Suc i \<and> i < length s \<and> canon ic (s ! i) = canon ic c"
| "rx_acc ic s (RCls cl) i j \<longleftrightarrow> j = Suc i \<and> i < length s \<and> cls_mem cl (s ! i)"
| "rx_acc ic s (RStar cl) i j \<longleftrightarrow> i \<le> j \<and> j \<le> i + cls_run cl s i"
| "rx_acc ic s RBol i j \<longleftrightarrow> j = i \<and> i = 0"
| "rx_acc ic s REol i j \<longleftrightarrow> j = i \<and> i = length s"
| "rx_acc ic s RWordB i j \<longleftrightarrow> j = i \<and> at_boundary s i"
| "rx_acc ic s (RSeq a b) i j \<longleftrightarrow> (\<exists>m\<in>{i..j}. rx_acc ic s a i m \<and> rx_acc ic s b m j)"
| "rx_acc ic s (RAlt a b) i j \<longleftrightarrow> rx_acc ic s a i j \<or> rx_acc ic s b i j"
| "rx_acc ic s (ROpt a) i j \<longleftrightarrow> rx_acc ic s a i j \<or> j = i"
| "rx_acc ic s REmpty i j \<longleftrightarrow> j = i"

text \<open>A regular expression object: its pattern and its \<^verbatim>\<open>i\<close> flag.\<close>

record regexp =
  re_body :: rx
  re_ignoreCase :: bool

text \<open>
  \<^verbatim>\<open>RegExpBuiltinExec\<close> for a non-global, non-sticky expression: \<^verbatim>\<open>lastIndex\<close>
  starts at 0 and advances by one code unit until the matcher succeeds or passes the end.
  The result is the start index and the end of the match (\<^verbatim>\<open>match.index\<close> and
  \<^verbatim>\<open>match.index + match[0].length\<close>).
\<close>

definition re_exec :: "regexp \<Rightarrow> jstring \<Rightarrow> (nat \<times> nat) option" where
  "re_exec re s =
     first_some (\<lambda>i. map_option (\<lambda>e. (i, e)) (rx_m (re_ignoreCase re) s (re_body re) Some i))
       [0..<Suc (length s)]"

definition re_test :: "regexp \<Rightarrow> jstring \<Rightarrow> bool" where
  "re_test re s \<longleftrightarrow> re_exec re s \<noteq> None"

text \<open>A literal string as a pattern, and a sequence of patterns.\<close>

fun rx_str :: "jstring \<Rightarrow> rx" where
  "rx_str [] = REmpty"
| "rx_str (c # cs) = RSeq (RChr c) (rx_str cs)"

fun rx_seq :: "rx list \<Rightarrow> rx" where
  "rx_seq [] = REmpty"
| "rx_seq [r] = r"
| "rx_seq (r # rs) = RSeq r (rx_seq rs)"

text \<open>\<open>w\<close> occurs at position \<open>i\<close> of \<open>s\<close>, code units compared after canonicalisation.\<close>

definition occurs_at :: "bool \<Rightarrow> jstring \<Rightarrow> jstring \<Rightarrow> nat \<Rightarrow> bool" where
  "occurs_at ic w s i \<longleftrightarrow>
     i + length w \<le> length s \<and> map (canon ic) (take (length w) (drop i s)) = map (canon ic) w"

text \<open>
  The pattern source the program builds, read as ECMA-262 (Annex B, no \<^verbatim>\<open>u\<close> flag)
  reads it: a sequence of terms, each an atom with an optional \<^verbatim>\<open>*\<close> or \<^verbatim>\<open>?\<close>.
  An escape \<^verbatim>\<open>\\c\<close> is a class (\<^verbatim>\<open>\s\<close>, \<^verbatim>\<open>\S\<close>), an assertion
  (\<^verbatim>\<open>\b\<close>), a control character (\<^verbatim>\<open>\f \n \r \t \v\<close>) or, for any other
  character outside the letters and digits with a meaning, that character itself (an
  identity escape); an unescaped character is \<^verbatim>\<open>^\<close>, \<^verbatim>\<open>$\<close> or itself unless it is
  one of \<^verbatim>\<open>\ . * + ? ( ) [ | {\<close>. \<open>None\<close> is a syntax error or a construct outside
  the modelled fragment (other class escapes, back references, groups, classes,
  alternatives, \<^verbatim>\<open>+\<close> and braces, lazy quantifiers).
\<close>

definition escape_atom :: "cu \<Rightarrow> rx option" where
  "escape_atom d =
     (if d = 115 then Some (RCls CSpace)
      else if d = 83 then Some (RCls CNonSpace)
      else if d = 98 then Some RWordB
      else if d = 102 then Some (RChr 12)
      else if d = 110 then Some (RChr 10)
      else if d = 114 then Some (RChr 13)
      else if d = 116 then Some (RChr 9)
      else if d = 118 then Some (RChr 11)
      else if d \<in> set [100, 68, 119, 87, 66, 99, 120, 117, 107] \<or> (48 \<le> d \<and> d \<le> 57) then None
      else Some (RChr d))"

definition plain_atom :: "cu \<Rightarrow> rx option" where
  "plain_atom c =
     (if c = 94 then Some RBol
      else if c = 36 then Some REol
      else if c \<in> set [u_bslash, 46, u_star, u_plus, 63, u_lpar, u_rpar, u_lbrack, u_bar, u_lbrace] then None
      else Some (RChr c))"

fun split_atom :: "jstring \<Rightarrow> (rx \<times> jstring) option" where
  "split_atom [] = None"
| "split_atom (c # cs) =
     (if c = u_bslash then (case cs of [] \<Rightarrow> None | d # ds \<Rightarrow> map_option (\<lambda>a. (a, ds)) (escape_atom d))
      else map_option (\<lambda>a. (a, cs)) (plain_atom c))"

definition star_of :: "rx \<Rightarrow> rx option" where
  "star_of a = (case a of RChr c \<Rightarrow> Some (RStar (CRanges [(c, c)])) | RCls k \<Rightarrow> Some (RStar k) | _ \<Rightarrow> None)"

definition quantifiable :: "rx \<Rightarrow> bool" where
  "quantifiable a = (case a of RChr c \<Rightarrow> True | RCls k \<Rightarrow> True | _ \<Rightarrow> False)"

definition split_term :: "jstring \<Rightarrow> (rx \<times> jstring) option" where
  "split_term s =
     (case split_atom s of
        None \<Rightarrow> None
      | Some (a, rest) \<Rightarrow>
          (case rest of
             [] \<Rightarrow> Some (a, [])
           | q # rest' \<Rightarrow>
               if q = u_star then
                 (if rest' \<noteq> [] \<and> hd rest' = 63 then None else map_option (\<lambda>t. (t, rest')) (star_of a))
               else if q = 63 then
                 (if rest' \<noteq> [] \<and> hd rest' = 63 then None
                  else if quantifiable a then Some (ROpt a, rest') else None)
               else if q = u_plus \<or> q = u_lbrace then None
               else Some (a, rest)))"

function parse_pattern :: "jstring \<Rightarrow> rx option" where
  "parse_pattern s =
     (if s = [] then Some REmpty
      else case split_term s of
        None \<Rightarrow> None
      | Some (t, rest) \<Rightarrow> map_option (RSeq t) (parse_pattern rest))"
  by pat_completeness auto

named_theorems rx_eval "unfolding rules that evaluate the matcher on concrete strings"

declare re_test_def [rx_eval] re_exec_def [rx_eval] at_boundary_def [rx_eval] word_at_def [rx_eval]
  is_word_char_def [rx_eval] cls_run_def [rx_eval] canon_def [rx_eval] js_upper_def [rx_eval]
  is_js_space_def [rx_eval] js_lit_def [rx_eval]

subsection \<open>Termination of the pattern reader\<close>

lemma split_atom_shorter: "split_atom s = Some (a, rest) \<Longrightarrow> length rest < length s"
  by (cases s) (auto split: if_splits list.splits)

lemma split_term_shorter: "split_term s = Some (t, rest) \<Longrightarrow> length rest < length s"
  by (auto simp: split_term_def dest!: split_atom_shorter split: option.splits list.splits if_splits)

termination parse_pattern
  by (relation "measure length") (auto dest: split_term_shorter)

declare parse_pattern.simps [simp del]

subsection \<open>Soundness and completeness of the matcher\<close>

lemma rx_acc_le: "rx_acc ic s r i j \<Longrightarrow> i \<le> j"
  by (induction r arbitrary: i j) fastforce+

lemma cls_run_le: "i + cls_run cl s i \<le> length s \<or> length s < i"
  using length_takeWhile_le [of "cls_mem cl" "drop i s"] by (auto simp: cls_run_def)

lemma rx_acc_bound: "rx_acc ic s r i j \<Longrightarrow> i \<le> length s \<Longrightarrow> j \<le> length s"
proof (induction r arbitrary: i j)
  case (RStar cl)
  then show ?case using cls_run_le [of i cl s] by auto
next
  case (RSeq a b)
  then show ?case by auto
qed auto

lemma rx_m_sound:
  "rx_m ic s r k i = Some e \<Longrightarrow> \<exists>j. rx_acc ic s r i j \<and> k j = Some e"
proof (induction r arbitrary: k i)
  case (RStar cl)
  from RStar.prems have "first_some k (rev [i..<Suc (i + cls_run cl s i)]) = Some e"
    by (simp del: upt_Suc)
  then obtain j where "j \<in> set (rev [i..<Suc (i + cls_run cl s i)])" "k j = Some e"
    by (blast dest: first_some_Some)
  then show ?case by (auto simp del: upt_Suc)
next
  case (RSeq a b)
  from RSeq.prems RSeq.IH(1) [of "rx_m ic s b k" i] obtain m
    where am: "rx_acc ic s a i m" and bm: "rx_m ic s b k m = Some e" by auto
  from RSeq.IH(2) [OF bm] obtain j where bj: "rx_acc ic s b m j" and "k j = Some e" by blast
  moreover have "m \<in> {i..j}" using rx_acc_le [OF am] rx_acc_le [OF bj] by simp
  ultimately show ?case using am by (simp only: rx_acc.simps) blast
next
  case (RAlt a b)
  then show ?case by (fastforce split: option.splits)
next
  case (ROpt a)
  show ?case
  proof (cases "rx_m ic s a (\<lambda>j. if j = i then None else k j) i")
    case None
    with ROpt.prems show ?thesis by auto
  next
    case (Some e')
    with ROpt.prems ROpt.IH [of "\<lambda>j. if j = i then None else k j" i] show ?thesis
      by (auto split: if_splits)
  qed
qed (auto split: if_splits)

lemma rx_m_complete:
  "rx_acc ic s r i j \<Longrightarrow> k j \<noteq> None \<Longrightarrow> rx_m ic s r k i \<noteq> None"
proof (induction r arbitrary: k i j)
  case (RStar cl)
  then have "j \<in> set (rev [i..<Suc (i + cls_run cl s i)])" by (auto simp del: upt_Suc)
  with RStar.prems(2) show ?case by (auto simp del: upt_Suc simp: first_some_None_iff)
next
  case (RSeq a b)
  then obtain m where "rx_acc ic s a i m" "rx_acc ic s b m j" by auto
  with RSeq.IH RSeq.prems show ?case by simp
next
  case (RAlt a b)
  show ?case
  proof (cases "rx_acc ic s a i j")
    case True
    then have "rx_m ic s a k i \<noteq> None" using RAlt.IH(1) RAlt.prems(2) by blast
    then show ?thesis by (auto split: option.splits)
  next
    case False
    with RAlt.prems have "rx_m ic s b k i \<noteq> None" using RAlt.IH(2) by auto
    then show ?thesis by (auto split: option.splits)
  qed
next
  case (ROpt a)
  show ?case
  proof (cases "j = i")
    case True
    with ROpt.prems show ?thesis by (auto split: option.splits)
  next
    case False
    with ROpt.prems have "rx_acc ic s a i j" by simp
    with False ROpt.prems ROpt.IH [of i j "\<lambda>j. if j = i then None else k j"] show ?thesis
      by (auto split: option.splits)
  qed
qed auto

lemma rx_m_None_no_acc: "rx_m ic s r Some i = None \<Longrightarrow> \<not> rx_acc ic s r i j"
  using rx_m_complete [of ic s r i j Some] by auto

lemma rx_m_Some_acc: "rx_m ic s r Some i = Some e \<Longrightarrow> rx_acc ic s r i e"
  using rx_m_sound [of ic s r Some i e] by auto

subsection \<open>exec and test\<close>

lemma re_exec_Some:
  assumes "re_exec re s = Some (i, e)"
  shows "i \<le> length s \<and> rx_acc (re_ignoreCase re) s (re_body re) i e \<and>
         (\<forall>i'<i. \<forall>j. \<not> rx_acc (re_ignoreCase re) s (re_body re) i' j)"
proof -
  let ?m = "\<lambda>i. rx_m (re_ignoreCase re) s (re_body re) Some i"
  from first_some_leftmost [OF assms [unfolded re_exec_def]] obtain k
    where k: "k < Suc (length s)" "map_option (\<lambda>e. (k, e)) (?m k) = Some (i, e)"
      and before: "\<forall>l<k. map_option (\<lambda>e. (l, e)) (?m l) = None"
    by (auto simp del: upt_Suc)
  from k have ik: "i = k" and mk: "?m k = Some e" by (auto simp del: upt_Suc)
  have "\<forall>i'<i. \<forall>j. \<not> rx_acc (re_ignoreCase re) s (re_body re) i' j"
    using before ik by (auto simp del: upt_Suc dest!: rx_m_None_no_acc)
  with k ik mk show ?thesis by (auto intro: rx_m_Some_acc)
qed

lemma re_exec_None:
  "re_exec re s = None \<longleftrightarrow>
   (\<forall>i\<le>length s. \<forall>j. \<not> rx_acc (re_ignoreCase re) s (re_body re) i j)"
proof
  assume "re_exec re s = None"
  then have "\<forall>i\<le>length s. rx_m (re_ignoreCase re) s (re_body re) Some i = None"
    by (auto simp: re_exec_def first_some_None_iff simp del: upt_Suc)
  then show "\<forall>i\<le>length s. \<forall>j. \<not> rx_acc (re_ignoreCase re) s (re_body re) i j"
    by (auto dest: rx_m_None_no_acc)
next
  assume none: "\<forall>i\<le>length s. \<forall>j. \<not> rx_acc (re_ignoreCase re) s (re_body re) i j"
  have "rx_m (re_ignoreCase re) s (re_body re) Some i = None" if "i \<le> length s" for i
    using none that by (cases "rx_m (re_ignoreCase re) s (re_body re) Some i")
      (auto dest: rx_m_Some_acc)
  then show "re_exec re s = None"
    by (auto simp: re_exec_def first_some_None_iff simp del: upt_Suc)
qed

lemma re_exec_bound: "re_exec re s = Some (i, e) \<Longrightarrow> i \<le> e \<and> e \<le> length s"
  using re_exec_Some [of re s i e] by (auto intro: rx_acc_le rx_acc_bound)

lemma re_test_exec: "re_test re s \<longleftrightarrow> (\<exists>i e. re_exec re s = Some (i, e))"
  by (auto simp: re_test_def)

subsection \<open>Literal strings\<close>

lemma rx_m_str:
  "i \<le> length s \<Longrightarrow>
   rx_m ic s (rx_str w) k i =
     (if i + length w \<le> length s \<and> map (canon ic) (take (length w) (drop i s)) = map (canon ic) w
      then k (i + length w) else None)"
proof (induction w arbitrary: i)
  case Nil
  then show ?case by simp
next
  case (Cons c cs)
  show ?case
  proof (cases "i < length s")
    case True
    then have "drop i s = s ! i # drop (Suc i) s" by (simp add: Cons_nth_drop_Suc)
    with True Cons.IH [of "Suc i"] show ?thesis by auto
  next
    case False
    with Cons.prems show ?thesis by simp
  qed
qed

lemma rx_acc_str:
  "i \<le> length s \<Longrightarrow>
   rx_acc ic s (rx_str w) i j \<longleftrightarrow> j = i + length w \<and> occurs_at ic w s i"
  unfolding occurs_at_def
proof (induction w arbitrary: i)
  case Nil
  then show ?case by simp
next
  case (Cons c cs)
  show ?case
  proof (cases "i < length s")
    case True
    then have "drop i s = s ! i # drop (Suc i) s" by (simp add: Cons_nth_drop_Suc)
    with True Cons.IH [of "Suc i"] show ?thesis by auto
  next
    case False
    with Cons.prems show ?thesis by simp
  qed
qed

lemma rx_acc_RSeq_str:
  "i \<le> length s \<Longrightarrow>
   rx_acc ic s (RSeq a (RSeq (rx_str w) b)) i j \<longleftrightarrow>
   (\<exists>m. rx_acc ic s a i m \<and> occurs_at ic w s m \<and> rx_acc ic s b (m + length w) j)"
proof
  assume i: "i \<le> length s" and "rx_acc ic s (RSeq a (RSeq (rx_str w) b)) i j"
  then obtain m m' where am: "rx_acc ic s a i m" and wm: "rx_acc ic s (rx_str w) m m'"
    and bj: "rx_acc ic s b m' j" by auto
  from wm rx_acc_bound [OF am i] have "m' = m + length w \<and> occurs_at ic w s m"
    by (simp add: rx_acc_str)
  with am bj show "\<exists>m. rx_acc ic s a i m \<and> occurs_at ic w s m \<and> rx_acc ic s b (m + length w) j"
    by blast
next
  assume i: "i \<le> length s"
    and "\<exists>m. rx_acc ic s a i m \<and> occurs_at ic w s m \<and> rx_acc ic s b (m + length w) j"
  then obtain m where am: "rx_acc ic s a i m" and occ: "occurs_at ic w s m"
    and bj: "rx_acc ic s b (m + length w) j" by blast
  have m: "m \<le> length s" using rx_acc_bound [OF am i] .
  have "i \<le> m" "m + length w \<le> j" using rx_acc_le am bj by blast+
  have "rx_acc ic s (rx_str w) m (m + length w)" using occ m by (simp add: rx_acc_str)
  with bj \<open>m + length w \<le> j\<close> have "rx_acc ic s (RSeq (rx_str w) b) m j"
    by (auto intro!: bexI [of _ "m + length w"])
  moreover have "m \<in> {i..j}" using \<open>i \<le> m\<close> \<open>m + length w \<le> j\<close> by simp
  ultimately show "rx_acc ic s (RSeq a (RSeq (rx_str w) b)) i j"
    unfolding rx_acc.simps(7) [of ic s a] using am by blast
qed

lemma re_test_iff_acc:
  "re_test re s \<longleftrightarrow> (\<exists>i\<le>length s. \<exists>j. rx_acc (re_ignoreCase re) s (re_body re) i j)"
  unfolding re_test_def using re_exec_None [of re s] by auto

lemma re_test_RSeq_str:
  "re_test \<lparr>re_body = RSeq a (RSeq (rx_str w) b), re_ignoreCase = ic\<rparr> s \<longleftrightarrow>
   (\<exists>i\<le>length s. \<exists>m. rx_acc ic s a i m \<and> occurs_at ic w s m \<and>
      (\<exists>j. rx_acc ic s b (m + length w) j))"
proof -
  have "(\<exists>j. rx_acc ic s (RSeq a (RSeq (rx_str w) b)) i j) \<longleftrightarrow>
        (\<exists>m. rx_acc ic s a i m \<and> occurs_at ic w s m \<and> (\<exists>j. rx_acc ic s b (m + length w) j))"
    if "i \<le> length s" for i
    using rx_acc_RSeq_str [OF that, of ic a w b] by blast
  then show ?thesis unfolding re_test_iff_acc regexp.simps by blast
qed

subsection \<open>Sequences with literals, alternatives and anchors\<close>

lemma rx_acc_str_seq:
  "i \<le> length s \<Longrightarrow>
   rx_acc ic s (RSeq (rx_str w) r) i j \<longleftrightarrow> occurs_at ic w s i \<and> rx_acc ic s r (i + length w) j"
proof
  assume i: "i \<le> length s" and "rx_acc ic s (RSeq (rx_str w) r) i j"
  then obtain m where "rx_acc ic s (rx_str w) i m" and "rx_acc ic s r m j" by auto
  with i show "occurs_at ic w s i \<and> rx_acc ic s r (i + length w) j" by (simp add: rx_acc_str)
next
  assume i: "i \<le> length s" and a: "occurs_at ic w s i \<and> rx_acc ic s r (i + length w) j"
  then have "rx_acc ic s (rx_str w) i (i + length w)" by (simp add: rx_acc_str)
  moreover have "i + length w \<le> j" using a rx_acc_le by blast
  ultimately show "rx_acc ic s (RSeq (rx_str w) r) i j" using a by auto
qed

lemma rx_acc_RSeq_RAlt:
  "rx_acc ic s (RSeq (RAlt a b) c) i j \<longleftrightarrow> rx_acc ic s (RSeq a c) i j \<or> rx_acc ic s (RSeq b c) i j"
  by auto

lemma rx_acc_RSeq_ROpt:
  "rx_acc ic s (RSeq (ROpt a) b) i j \<longleftrightarrow> rx_acc ic s (RSeq a b) i j \<or> rx_acc ic s b i j"
  using rx_acc_le by fastforce

lemma occurs_at_end_iff:
  "occurs_at False w s i \<and> i + length w = length s \<longleftrightarrow> i = length s - length w \<and> ends_with w s"
  by (auto simp: occurs_at_def ends_with_def)

lemma occurs_at_start_iff: "occurs_at False w s 0 \<longleftrightarrow> starts_with w s"
  by (auto simp: occurs_at_def starts_with_def dest: arg_cong [of _ _ length])

lemma occurs_at_append:
  "occurs_at ic (p @ q) s i \<longleftrightarrow> occurs_at ic p s i \<and> occurs_at ic q s (i + length p)"
proof -
  have "take (length p + length q) (drop i s) = take (length p) (drop i s) @ take (length q) (drop (i + length p) s)"
    by (simp add: take_add add.commute)
  then show ?thesis
    by (auto simp: occurs_at_def)
qed

lemma rx_acc_RSeq_RBol: "rx_acc ic s (RSeq RBol r) i j \<longleftrightarrow> i = 0 \<and> rx_acc ic s r 0 j"
  by auto

end
