(* ===== verification/Query.thy ===== *)
theory Query
  imports JsRegex
begin

text \<open>
  The query compiler of \<^verbatim>\<open>src/res/deng.js\<close>: \<^verbatim>\<open>escapeRE\<close> (lines 30--32) and
  \<^verbatim>\<open>makeRE\<close> (lines 34--60), with the options record of \<^verbatim>\<open>loadOptions\<close> (line 15)
  and \<^verbatim>\<open>contains\<close> (lines 62--64). Each \<^verbatim>\<open>search.replace(...)\<close> of the normalisation
  pipeline is a scanner over code units; the three steps that adjust the anchors
  (lines 42--53) update a record \<open>re_parts\<close> holding the code's local variables
  \<^verbatim>\<open>start\<close>, \<^verbatim>\<open>end\<close> and \<^verbatim>\<open>search\<close>. The regular expression built on line 59
  is \<^verbatim>\<open>(start search end)\<close>: its pattern is the sequence of the three parts (the
  capturing group does not change what matches), its \<^verbatim>\<open>i\<close> flag the option
  \<^verbatim>\<open>ignoreCase\<close>.
\<close>

record options =
  opt_start :: bool
  opt_end :: bool
  opt_ignoreCase :: bool
  opt_max :: nat
  opt_timeout :: nat
  opt_min :: nat

definition default_options :: options where
  "default_options =
     \<lparr>opt_start = False, opt_end = True, opt_ignoreCase = True, opt_max = 100,
      opt_timeout = 2000, opt_min = 3\<rparr>"

subsection \<open>escapeRE and the wildcard\<close>

text \<open>The metacharacters of line 31, in the order of the class \<^verbatim>\<open>[\\{}()|.?*+\-\^$\[\]]\<close>.\<close>

definition re_meta :: jstring where
  "re_meta = [u_bslash, u_lbrace, u_rbrace, u_lpar, u_rpar, u_bar, 46, 63, u_star, u_plus,
              u_hyphen, 94, 36, u_lbrack, u_rbrack]"

definition escapeRE :: "jstring \<Rightarrow> jstring" where
  "escapeRE s = concat (map (\<lambda>c. if c \<in> set re_meta then [u_bslash, c] else [c]) s)"

text \<open>Line 58: \<^verbatim>\<open>search.replace(/\\\*/g, '\\S*')\<close>, a left-to-right scan.\<close>

fun star_to_class :: "jstring \<Rightarrow> jstring" where
  "star_to_class (c1 # c2 # cs) =
     (if c1 = u_bslash \<and> c2 = u_star then [u_bslash, 83, u_star] @ star_to_class cs
      else c1 # star_to_class (c2 # cs))"
| "star_to_class cs = cs"

text \<open>
  The pattern the escaped text stands for: an escaped metacharacter is that code unit,
  \<^verbatim>\<open>\S*\<close> is the greedy star of \<^verbatim>\<open>\S\<close>, every other code unit is itself.
\<close>

definition search_atom :: "cu \<Rightarrow> rx" where
  "search_atom c = (if c = u_star then RStar CNonSpace else RChr c)"

definition search_rx :: "jstring \<Rightarrow> rx" where
  "search_rx s = foldr (\<lambda>c r. RSeq (search_atom c) r) s REmpty"

text \<open>The source text of one atom, as \<^verbatim>\<open>escapeRE\<close> and line 58 write it.\<close>

definition atom_src :: "cu \<Rightarrow> jstring" where
  "atom_src c =
     (if c = u_star then [u_bslash, 83, u_star]
      else if c \<in> set re_meta then [u_bslash, c] else [c])"

subsection \<open>Normalisation of the query (lines 38--41)\<close>

text \<open>Line 38: \<^verbatim>\<open>replace(/[<>\[\]{}]/g, '')\<close>.\<close>

definition strip_fmt :: "jstring \<Rightarrow> jstring" where
  "strip_fmt s = filter (\<lambda>c. c \<notin> set [u_lt, u_gt, u_lbrack, u_rbrack, u_lbrace, u_rbrace]) s"

text \<open>Line 39: \<^verbatim>\<open>replace(/::|\|/g, ' ')\<close>; at each position \<^verbatim>\<open>::\<close> is tried first.\<close>

fun sep_to_space :: "jstring \<Rightarrow> jstring" where
  "sep_to_space (c1 # c2 # cs) =
     (if c1 = u_colon \<and> c2 = u_colon then u_sp # sep_to_space cs
      else if c1 = u_bar then u_sp # sep_to_space (c2 # cs)
      else c1 # sep_to_space (c2 # cs))"
| "sep_to_space [c] = (if c = u_bar then [u_sp] else [c])"
| "sep_to_space [] = []"

text \<open>Line 40: \<^verbatim>\<open>replace(/\s+/g, ' ')\<close>.\<close>

function collapse_ws :: "jstring \<Rightarrow> jstring" where
  "collapse_ws [] = []"
| "collapse_ws (c # cs) =
     (if is_js_space c then u_sp # collapse_ws (dropWhile is_js_space cs)
      else c # collapse_ws cs)"
  by pat_completeness auto
termination
  by (relation "measure length") (auto simp: le_imp_less_Suc length_dropWhile_le)

text \<open>Line 41, first call: \<^verbatim>\<open>replace(/^[ ,;:+']+/, '')\<close>.\<close>

definition lead_trim :: "jstring \<Rightarrow> jstring" where
  "lead_trim s = dropWhile (\<lambda>c. c \<in> set [u_sp, u_comma, u_semi, u_colon, u_plus, u_apos]) s"

text \<open>
  Line 41, second call: \<^verbatim>\<open>replace(/[ ,:-;']+$/, ' ')\<close>. Inside the class,
  \<^verbatim>\<open>:-;\<close> is the range from \<^verbatim>\<open>:\<close> to \<^verbatim>\<open>;\<close>, so the class is the code units
  space, comma, colon, semicolon and apostrophe. The leftmost match is the longest run of
  them that reaches the end; it is replaced by one space.
\<close>

definition trail_class :: cclass where
  "trail_class = CRanges [(u_sp, u_sp), (u_comma, u_comma), (u_colon, u_semi), (u_apos, u_apos)]"

definition trail_trim :: "jstring \<Rightarrow> jstring" where
  "trail_trim s =
     (let t = rev (dropWhile (cls_mem trail_class) (rev s))
      in if length t = length s then s else t @ [u_sp])"

definition normalize_query :: "jstring \<Rightarrow> jstring" where
  "normalize_query q = trail_trim (lead_trim (collapse_ws (sep_to_space (strip_fmt q))))"

subsection \<open>The anchors (lines 35--37 and 42--53)\<close>

text \<open>Line 36 for \<^verbatim>\<open>start\<close>: \<^verbatim>\<open>(?:^| \| | :: |; )(?:to )?\<close>.\<close>

definition start_sep_rx :: rx where
  "start_sep_rx =
     RSeq (RAlt RBol (RAlt (rx_str (js_lit '' | '')) (RAlt (rx_str (js_lit '' :: '')) (rx_str (js_lit ''; '')))))
          (ROpt (rx_str (js_lit ''to '')))"

record re_parts =
  rp_start :: rx
  rp_end :: rx
  rp_search :: jstring

definition initial_parts :: "jstring \<Rightarrow> options \<Rightarrow> re_parts" where
  "initial_parts q opts =
     \<lparr>rp_start = (if opt_start opts then start_sep_rx else RWordB),
      rp_end = (if opt_end opts then RWordB else REmpty),
      rp_search = normalize_query q\<rparr>"

text \<open>Lines 42--45: a trailing space forces \<^verbatim>\<open>\b\<close> at the end and is dropped.\<close>

definition trailing_space_step :: "re_parts \<Rightarrow> re_parts" where
  "trailing_space_step p =
     (let s = rp_search p in
      if s \<noteq> [] \<and> last s = u_sp then p\<lparr>rp_end := RWordB, rp_search := butlast s\<rparr> else p)"

text \<open>Lines 46--49: a leading \<^verbatim>\<open>*\<close> removes the start anchor.\<close>

definition leading_star_step :: "re_parts \<Rightarrow> re_parts" where
  "leading_star_step p =
     (let s = rp_search p in
      if s \<noteq> [] \<and> hd s = u_star then p\<lparr>rp_start := REmpty, rp_search := tl s\<rparr> else p)"

text \<open>Lines 50--53: a trailing \<^verbatim>\<open>*\<close> removes the end anchor.\<close>

definition trailing_star_step :: "re_parts \<Rightarrow> re_parts" where
  "trailing_star_step p =
     (let s = rp_search p in
      if s \<noteq> [] \<and> last s = u_star then p\<lparr>rp_end := REmpty, rp_search := butlast s\<rparr> else p)"

definition query_parts :: "jstring \<Rightarrow> options \<Rightarrow> re_parts" where
  "query_parts q opts =
     trailing_star_step (leading_star_step (trailing_space_step (initial_parts q opts)))"

text \<open>\<^verbatim>\<open>makeRE\<close>: \<open>None\<close> is the \<^verbatim>\<open>false\<close> returned on line 55.\<close>

definition makeRE :: "jstring \<Rightarrow> options \<Rightarrow> regexp option" where
  "makeRE q opts =
     (let p = query_parts q opts in
      if length (rp_search p) < opt_min opts then None
      else Some \<lparr>re_body = RSeq (rp_start p) (RSeq (search_rx (rp_search p)) (rp_end p)),
                 re_ignoreCase = opt_ignoreCase opts\<rparr>)"

text \<open>\<^verbatim>\<open>contains\<close> (lines 62--64).\<close>

definition contains :: "jstring \<Rightarrow> regexp \<Rightarrow> bool" where
  "contains text re \<longleftrightarrow> re_test re text"

text \<open>A query that normalisation leaves alone, that has no wildcard and no trailing space.\<close>

definition plain_query :: "jstring \<Rightarrow> bool" where
  "plain_query w \<longleftrightarrow> normalize_query w = w \<and> u_star \<notin> set w \<and> w \<noteq> [] \<and> last w \<noteq> u_sp"

text \<open>The normal form that lines 38--41 produce: no markup, every white space a
  plain space, no two spaces or colons in a row, and no separator in front.\<close>

fun no_adj :: "cu \<Rightarrow> jstring \<Rightarrow> bool" where
  "no_adj c (a # b # cs) = (\<not> (a = c \<and> b = c) \<and> no_adj c (b # cs))"
| "no_adj c _ = True"

definition is_markup :: "cu \<Rightarrow> bool" where
  "is_markup c \<longleftrightarrow> c \<in> {u_lt, u_gt, u_lbrack, u_rbrack, u_lbrace, u_rbrace, u_bar}"

definition lead_char :: "cu \<Rightarrow> bool" where
  "lead_char c \<longleftrightarrow> c \<in> {u_sp, u_comma, u_semi, u_colon, u_plus, u_apos}"

definition query_normal :: "jstring \<Rightarrow> bool" where
  "query_normal s \<longleftrightarrow>
     (\<forall>c\<in>set s. \<not> is_markup c \<and> (is_js_space c \<longrightarrow> c = u_sp)) \<and>
     no_adj u_sp s \<and> no_adj u_colon s \<and> (s \<noteq> [] \<longrightarrow> \<not> lead_char (hd s))"

lemmas query_eval = makeRE_def query_parts_def initial_parts_def default_options_def
  normalize_query_def trailing_space_step_def leading_star_step_def trailing_star_step_def
  strip_fmt_def lead_trim_def trail_trim_def trail_class_def search_rx_def search_atom_def
  contains_def

subsection \<open>Lemmas on the normalisation\<close>

lemma sep_to_space_snoc:
  "c \<noteq> u_colon \<Longrightarrow> c \<noteq> u_bar \<Longrightarrow> sep_to_space (xs @ [c]) = sep_to_space xs @ [c]"
  by (induction xs rule: sep_to_space.induct) auto

lemma collapse_ws_snoc:
  "\<not> is_js_space c \<Longrightarrow> collapse_ws (xs @ [c]) = collapse_ws xs @ [c]"
  by (induction xs rule: collapse_ws.induct) (auto simp: dropWhile_snoc)

lemma trail_trim_snoc:
  "\<not> cls_mem trail_class c \<Longrightarrow> trail_trim (xs @ [c]) = xs @ [c]"
  by (simp add: trail_trim_def)

lemma trail_trim_fixed:
  "trail_trim t = w \<Longrightarrow> w \<noteq> [] \<Longrightarrow> last w \<noteq> u_sp \<Longrightarrow> t = w"
  by (auto simp: trail_trim_def Let_def split: if_splits)

lemma normalize_query_snoc_star:
  assumes "plain_query w"
  shows "normalize_query (w @ [u_star]) = w @ [u_star]"
proof -
  let ?l = "lead_trim (collapse_ws (sep_to_space (strip_fmt w)))"
  have "?l = w" using assms
    by (intro trail_trim_fixed [of ?l w]) (auto simp: plain_query_def normalize_query_def)
  moreover have "lead_trim (collapse_ws (sep_to_space (strip_fmt (w @ [u_star])))) = ?l @ [u_star]"
    by (simp add: strip_fmt_def sep_to_space_snoc collapse_ws_snoc lead_trim_def dropWhile_snoc
        is_js_space_def)
  ultimately show ?thesis
    by (simp add: normalize_query_def trail_trim_snoc trail_class_def)
qed

lemma search_rx_no_star: "u_star \<notin> set w \<Longrightarrow> search_rx w = rx_str w"
  by (induction w) (auto simp: search_rx_def search_atom_def)

lemma plain_query_ends:
  "plain_query w \<Longrightarrow> hd w \<noteq> u_star \<and> last w \<noteq> u_star \<and> last w \<noteq> u_sp \<and> w \<noteq> []"
  unfolding plain_query_def by (metis hd_in_set last_in_set)

lemma query_parts_plain:
  assumes "plain_query w"
  shows "query_parts w opts = initial_parts w opts"
proof -
  have "rp_search (initial_parts w opts) = w"
    using assms by (simp add: plain_query_def initial_parts_def)
  with plain_query_ends [OF assms] show ?thesis
    by (simp add: query_parts_def trailing_space_step_def leading_star_step_def
        trailing_star_step_def)
qed

lemma query_parts_plain_star:
  assumes "plain_query w"
  shows "query_parts (w @ [u_star]) opts = (initial_parts w opts)\<lparr>rp_end := REmpty\<rparr>"
proof -
  have n: "normalize_query (w @ [u_star]) = w @ [u_star]"
    using assms by (rule normalize_query_snoc_star)
  have nw: "normalize_query w = w" and hd: "hd w \<noteq> u_star" and ne: "w \<noteq> []"
    using assms plain_query_ends [OF assms] by (simp_all add: plain_query_def)
  let ?p = "initial_parts (w @ [u_star]) opts"
  have "trailing_space_step ?p = ?p"
    using n by (simp add: trailing_space_step_def initial_parts_def)
  moreover have "leading_star_step ?p = ?p"
    using n hd ne by (simp add: leading_star_step_def initial_parts_def hd_append)
  moreover have "trailing_star_step ?p = (initial_parts w opts)\<lparr>rp_end := REmpty\<rparr>"
    using n nw by (simp add: trailing_star_step_def initial_parts_def)
  ultimately show ?thesis by (simp add: query_parts_def)
qed

lemma makeRE_parts:
  "length (rp_search (query_parts q opts)) \<ge> opt_min opts \<Longrightarrow>
   makeRE q opts = Some \<lparr>re_body = RSeq (rp_start (query_parts q opts))
       (RSeq (search_rx (rp_search (query_parts q opts))) (rp_end (query_parts q opts))),
     re_ignoreCase = opt_ignoreCase opts\<rparr>"
  by (simp add: makeRE_def Let_def)

text \<open>What a pattern with \<^verbatim>\<open>\b\<close> in front of a literal accepts.\<close>

lemma contains_wordb_str:
  "contains text \<lparr>re_body = RSeq RWordB (RSeq (rx_str w) e), re_ignoreCase = ic\<rparr> \<longleftrightarrow>
   (\<exists>i. occurs_at ic w text i \<and> at_boundary text i \<and> (\<exists>j. rx_acc ic text e (i + length w) j))"
  (is "?l \<longleftrightarrow> ?r")
proof
  assume ?l
  then have "\<exists>i\<le>length text. \<exists>m. rx_acc ic text RWordB i m \<and> occurs_at ic w text m \<and>
      (\<exists>j. rx_acc ic text e (m + length w) j)"
    unfolding contains_def re_test_RSeq_str .
  then show ?r by auto
next
  assume ?r
  then obtain i j where "occurs_at ic w text i" "at_boundary text i"
    "rx_acc ic text e (i + length w) j" by blast
  moreover from this have "i \<le> length text" by (simp add: occurs_at_def)
  ultimately have "\<exists>i\<le>length text. \<exists>m. rx_acc ic text RWordB i m \<and> occurs_at ic w text m \<and>
      (\<exists>j. rx_acc ic text e (m + length w) j)"
    by auto
  then show ?l unfolding contains_def re_test_RSeq_str .
qed

lemma star_to_class_Cons:
  "c \<noteq> u_bslash \<or> rest = [] \<or> hd rest \<noteq> u_star \<Longrightarrow>
   star_to_class (c # rest) = c # star_to_class rest"
  by (cases rest) auto

lemma escapeRE_Cons:
  "escapeRE (c # s) = (if c \<in> set re_meta then [u_bslash, c] else [c]) @ escapeRE s"
  by (simp add: escapeRE_def)

lemma escapeRE_hd: "escapeRE s \<noteq> [] \<Longrightarrow> hd (escapeRE s) \<noteq> u_star"
  by (cases s) (auto simp: escapeRE_def escapeRE_Cons re_meta_def)

lemma atom_src_meta: "c \<in> set re_meta \<Longrightarrow> c \<noteq> u_star \<Longrightarrow> escape_atom c = Some (RChr c)"
  by (auto simp: re_meta_def escape_atom_def)

lemma plain_atom_other: "c \<notin> set re_meta \<Longrightarrow> plain_atom c = Some (RChr c)"
  by (auto simp: re_meta_def plain_atom_def)

lemma escape_src_Cons: "star_to_class (escapeRE (c # s)) = atom_src c @ star_to_class (escapeRE s)"
proof -
  have "star_to_class (c # escapeRE s) = c # star_to_class (escapeRE s)"
    using escapeRE_hd [of s] by (intro star_to_class_Cons) auto
  then show ?thesis
    by (cases "c = u_star") (auto simp: escapeRE_Cons re_meta_def atom_src_def)
qed

lemma escape_src_hd:
  assumes "star_to_class (escapeRE s) \<noteq> []"
  shows "hd (star_to_class (escapeRE s)) \<notin> {u_star, 63, u_plus, u_lbrace}"
proof (cases s)
  case Nil
  then show ?thesis using assms by (simp add: escapeRE_def)
next
  case (Cons c s')
  have "atom_src c \<noteq> []" by (simp add: atom_src_def)
  then have "hd (star_to_class (escapeRE s)) = hd (atom_src c)"
    by (simp add: Cons escape_src_Cons)
  then show ?thesis by (simp add: atom_src_def re_meta_def)
qed

lemma split_term_atom:
  assumes "rest = [] \<or> hd rest \<notin> {u_star, 63, u_plus, u_lbrace}"
  shows "split_term (atom_src c @ rest) = Some (search_atom c, rest)"
proof (cases "c = u_star")
  case True
  then show ?thesis using assms
    by (cases rest) (auto simp: split_term_def atom_src_def escape_atom_def star_of_def search_atom_def)
next
  case False
  show ?thesis
  proof (cases "c \<in> set re_meta")
    case True
    with False assms show ?thesis
      by (cases rest) (auto simp: split_term_def atom_src_def atom_src_meta search_atom_def)
  next
    case nm: False
    then have "c \<noteq> u_bslash" by (auto simp: re_meta_def)
    with nm False assms show ?thesis
      by (cases rest) (auto simp: split_term_def atom_src_def plain_atom_other search_atom_def)
  qed
qed

subsection \<open>The normal form of a query\<close>

lemma is_js_space_sp [simp]: "is_js_space u_sp"
  by (simp add: is_js_space_def)

lemma no_adj_Cons: "no_adj c (a # cs) \<longleftrightarrow> (cs = [] \<or> \<not> (a = c \<and> hd cs = c)) \<and> no_adj c cs"
  by (cases cs) auto

lemma no_adj_append:
  "no_adj c (xs @ ys) \<longleftrightarrow> no_adj c xs \<and> no_adj c ys \<and> \<not> (xs \<noteq> [] \<and> ys \<noteq> [] \<and> last xs = c \<and> hd ys = c)"
  by (induction xs) (auto simp: no_adj_Cons)

lemma no_adj_dropWhile: "no_adj c s \<Longrightarrow> no_adj c (dropWhile P s)"
  by (induction s) (auto simp: no_adj_Cons)

lemma no_adj_rev: "no_adj c (rev s) \<longleftrightarrow> no_adj c s"
  by (induction s) (auto simp: no_adj_append no_adj_Cons hd_rev last_rev)

lemma is_markup_sp [simp]: "\<not> is_markup u_sp"
  by (simp add: is_markup_def)

lemma strip_fmt_markup: "x \<in> set (strip_fmt q) \<Longrightarrow> \<not> is_markup x \<or> x = u_bar"
  by (auto simp: strip_fmt_def is_markup_def)

lemma lead_trim_eq: "lead_trim s = dropWhile lead_char s"
  unfolding lead_trim_def by (rule arg_cong [where f = "\<lambda>P. dropWhile P s"]) (auto simp: lead_char_def)

lemma trail_class_lead: "cls_mem trail_class c \<Longrightarrow> lead_char c"
  by (auto simp: trail_class_def lead_char_def)

lemma set_sep_to_space: "set (sep_to_space s) \<subseteq> (set s - {u_bar}) \<union> {u_sp}"
  by (induction s rule: sep_to_space.induct) auto

lemma hd_sep_to_space_colon:
  "sep_to_space s \<noteq> [] \<Longrightarrow> hd (sep_to_space s) = u_colon \<Longrightarrow> s \<noteq> [] \<and> hd s = u_colon \<and> \<not> (length s \<ge> 2 \<and> s ! 1 = u_colon)"
  by (induction s rule: sep_to_space.induct) (auto split: if_splits)

lemma no_adj_colon_sep_to_space: "no_adj u_colon (sep_to_space s)"
proof (induction s rule: sep_to_space.induct)
  case (1 c1 c2 cs)
  then show ?case
    by (auto simp: no_adj_Cons dest: hd_sep_to_space_colon)
qed simp_all

lemma set_collapse_ws: "set (collapse_ws s) \<subseteq> {c \<in> set s. \<not> is_js_space c} \<union> {u_sp}"
proof (induction s rule: collapse_ws.induct)
  case (2 c cs)
  have "set (dropWhile is_js_space cs) \<subseteq> set cs" by (rule set_dropWhileD [THEN subsetI])
  with 2 show ?case by auto
qed simp

lemma hd_collapse_ws:
  "collapse_ws s \<noteq> [] \<Longrightarrow> hd (collapse_ws s) = (if is_js_space (hd s) then u_sp else hd s) \<and> s \<noteq> []"
  by (cases s) auto

lemma hd_dropWhile_not: "dropWhile P s \<noteq> [] \<Longrightarrow> \<not> P (hd (dropWhile P s))"
  by (induction s) auto

lemma no_adj_collapse_sp: "no_adj u_sp (collapse_ws s)"
proof (induction s rule: collapse_ws.induct)
  case (2 c cs)
  have "collapse_ws (dropWhile is_js_space cs) \<noteq> [] \<Longrightarrow>
        hd (collapse_ws (dropWhile is_js_space cs)) \<noteq> u_sp"
    using hd_collapse_ws [of "dropWhile is_js_space cs"] hd_dropWhile_not [of is_js_space cs]
    by (auto simp: is_js_space_def)
  with 2 show ?case by (auto simp: no_adj_Cons)
qed simp

lemma no_adj_colon_collapse: "no_adj u_colon s \<Longrightarrow> no_adj u_colon (collapse_ws s)"
proof (induction s rule: collapse_ws.induct)
  case (2 c cs)
  show ?case
  proof (cases "is_js_space c")
    case True
    have "no_adj u_colon (dropWhile is_js_space cs)"
      using 2(3) by (intro no_adj_dropWhile) (simp add: no_adj_Cons)
    with 2 True show ?thesis by (simp add: no_adj_Cons is_js_space_def)
  next
    case False
    have ih: "no_adj u_colon (collapse_ws cs)" using 2 False by (simp add: no_adj_Cons)
    have "collapse_ws cs \<noteq> [] \<Longrightarrow> c = u_colon \<Longrightarrow> hd (collapse_ws cs) \<noteq> u_colon"
      using 2(3) hd_collapse_ws [of cs] by (cases cs) (auto simp: is_js_space_def split: if_splits)
    with False ih show ?thesis by (auto simp: no_adj_Cons)
  qed
qed simp

lemma trim_end_split: "s = rev (dropWhile P (rev s)) @ rev (takeWhile P (rev s))"
  by (metis rev_append rev_rev_ident takeWhile_dropWhile_id)

lemma trim_end_hd:
  assumes "s \<noteq> []" and "\<not> P (hd s)"
  shows "rev (dropWhile P (rev s)) \<noteq> [] \<and> hd (rev (dropWhile P (rev s))) = hd s"
proof -
  have ne: "rev (dropWhile P (rev s)) \<noteq> []"
  proof
    assume "rev (dropWhile P (rev s)) = []"
    then have "\<forall>x\<in>set s. P x" by simp
    with assms show False by simp
  qed
  with trim_end_split [of s P] show ?thesis by (metis hd_append2)
qed

lemma trim_end_last:
  "rev (dropWhile P (rev s)) \<noteq> [] \<Longrightarrow> \<not> P (last (rev (dropWhile P (rev s))))"
  using hd_dropWhile_not [of P "rev s"] by (simp add: last_rev)

lemma trail_trim_props:
  assumes "no_adj u_sp s" and "no_adj u_colon s"
  shows "set (trail_trim s) \<subseteq> set s \<union> {u_sp} \<and> no_adj u_sp (trail_trim s) \<and> no_adj u_colon (trail_trim s) \<and>
    (s \<noteq> [] \<longrightarrow> \<not> cls_mem trail_class (hd s) \<longrightarrow> trail_trim s \<noteq> [] \<and> hd (trail_trim s) = hd s)"
proof -
  let ?t = "rev (dropWhile (cls_mem trail_class) (rev s))"
  have pre: "set ?t \<subseteq> set s" by (metis set_append Un_upper1 trim_end_split)
  have na: "no_adj c ?t" if "no_adj c s" for c
    using that by (simp add: no_adj_rev no_adj_dropWhile)
  have last: "?t \<noteq> [] \<Longrightarrow> last ?t \<noteq> u_sp"
    using trim_end_last [of "cls_mem trail_class" s] by (auto simp: trail_class_def)
  show ?thesis
    using assms pre na last trim_end_hd [of s "cls_mem trail_class"]
    by (auto simp: trail_trim_def Let_def no_adj_append)
qed

lemma trail_trim_Nil [simp]: "trail_trim [] = []"
  by (simp add: trail_trim_def)

subsection \<open>A trailing hyphen\<close>

lemma canon_hyphen: "canon ic x = canon ic u_hyphen \<Longrightarrow> x = u_hyphen"
  by (auto simp: canon_def js_upper_def Let_def split: if_splits)

lemma search_rx_snoc:
  "search_rx (s @ [c]) = foldr (\<lambda>c r. RSeq (search_atom c) r) s (RSeq (search_atom c) REmpty)"
  by (simp add: search_rx_def)

lemma acc_atoms_last:
  assumes "rx_acc ic t (foldr (\<lambda>c r. RSeq (search_atom c) r) s (RSeq (RChr c) REmpty)) m k"
  shows "0 < k \<and> k \<le> length t \<and> canon ic (t ! (k - 1)) = canon ic c"
  using assms
proof (induction s arbitrary: m)
  case Nil
  then show ?case by auto
next
  case (Cons x s)
  then show ?case by auto
qed

lemma query_parts_hyphen:
  "\<exists>s. rp_search (query_parts (q @ [u_hyphen]) opts) = s @ [u_hyphen] \<and>
       rp_end (query_parts (q @ [u_hyphen]) opts) = (if opt_end opts then RWordB else REmpty)"
proof -
  let ?l = "lead_trim (collapse_ws (sep_to_space (strip_fmt q)))"
  have n: "normalize_query (q @ [u_hyphen]) = ?l @ [u_hyphen]"
    by (simp add: normalize_query_def strip_fmt_def sep_to_space_snoc collapse_ws_snoc lead_trim_def
        dropWhile_snoc is_js_space_def trail_trim_snoc trail_class_def)
  show ?thesis
  proof (cases "?l \<noteq> [] \<and> hd ?l = u_star")
    case True
    then show ?thesis
      by (simp add: query_parts_def initial_parts_def trailing_space_step_def leading_star_step_def
          trailing_star_step_def Let_def n)
  next
    case False
    then have "\<not> ((?l @ [u_hyphen]) \<noteq> [] \<and> hd (?l @ [u_hyphen]) = u_star)" by (cases ?l) auto
    then show ?thesis
      by (simp add: query_parts_def initial_parts_def trailing_space_step_def leading_star_step_def
          trailing_star_step_def Let_def n)
  qed
qed

lemma trailing_hyphen_example:
  "normalize_query (js_lit ''vor,'') = js_lit ''vor '' \<and>
   normalize_query (js_lit ''vor-'') = js_lit ''vor-'' \<and>
   contains (js_lit ''Vor- und Nachteile :: pros and cons'') (the (makeRE (js_lit ''vor,'') default_options)) \<and>
   \<not> contains (js_lit ''Vor- und Nachteile :: pros and cons'') (the (makeRE (js_lit ''vor-'') default_options))"
  by (simp add: query_eval rx_eval)

subsection \<open>Properties of the query compiler\<close>

text \<open>
  C1: a plain query (one that normalisation leaves unchanged, with no wildcard) compiled
  with the start option off matches exactly the texts in which it occurs, compared under
  the \<^verbatim>\<open>i\<close> flag's canonicalisation, starting at a word boundary and, when the
  \<^verbatim>\<open>end\<close> option is on, ending at one.
\<close>

theorem contains_plain_word:
  assumes "plain_query w" and "opt_min opts \<le> length w" and "\<not> opt_start opts"
  shows "\<exists>re. makeRE w opts = Some re \<and>
    (contains text re \<longleftrightarrow>
      (\<exists>i. occurs_at (opt_ignoreCase opts) w text i \<and> at_boundary text i \<and>
           (opt_end opts \<longrightarrow> at_boundary text (i + length w))))"
proof -
  have p: "query_parts w opts = initial_parts w opts" using assms(1) by (rule query_parts_plain)
  have nw: "normalize_query w = w" and ns: "u_star \<notin> set w"
    using assms(1) by (simp_all add: plain_query_def)
  let ?e = "if opt_end opts then RWordB else REmpty"
  have "makeRE w opts = Some \<lparr>re_body = RSeq RWordB (RSeq (rx_str w) ?e),
                              re_ignoreCase = opt_ignoreCase opts\<rparr>"
    using makeRE_parts [of opts w] assms(2,3) p nw ns
    by (simp add: initial_parts_def search_rx_no_star)
  moreover have "(\<exists>j. rx_acc ic text ?e (i + length w) j) \<longleftrightarrow>
                 (opt_end opts \<longrightarrow> at_boundary text (i + length w))" for ic i
    by auto
  ultimately show ?thesis by (simp add: contains_wordb_str)
qed

text \<open>
  C34: a trailing \<^verbatim>\<open>*\<close> turns a plain query into a prefix search: the compiled
  expression matches exactly the texts in which the query occurs at a word boundary,
  whatever the \<^verbatim>\<open>end\<close> option says.
\<close>

theorem contains_prefix_wildcard:
  assumes "plain_query w" and "opt_min opts \<le> length w" and "\<not> opt_start opts"
  shows "\<exists>re. makeRE (w @ [u_star]) opts = Some re \<and>
    (contains text re \<longleftrightarrow> (\<exists>i. occurs_at (opt_ignoreCase opts) w text i \<and> at_boundary text i))"
proof -
  have p: "query_parts (w @ [u_star]) opts = (initial_parts w opts)\<lparr>rp_end := REmpty\<rparr>"
    using assms(1) by (rule query_parts_plain_star)
  have nw: "normalize_query w = w" and ns: "u_star \<notin> set w"
    using assms(1) by (simp_all add: plain_query_def)
  have "makeRE (w @ [u_star]) opts = Some \<lparr>re_body = RSeq RWordB (RSeq (rx_str w) REmpty),
                              re_ignoreCase = opt_ignoreCase opts\<rparr>"
    using makeRE_parts [of opts "w @ [u_star]"] assms(2,3) p nw ns
    by (simp add: initial_parts_def search_rx_no_star)
  then show ?thesis by (simp add: contains_wordb_str)
qed

text \<open>
  C9: whatever the user types, the normalised query (lines 38--41) is in normal form:
  it holds none of \<^verbatim>\<open><>[]{}|\<close>, its only white space is the plain space, it never
  has two spaces or two colons in a row, and it does not start with one of \<^verbatim>\<open> ,;:+'\<close>.
\<close>

theorem normalize_query_normal: "query_normal (normalize_query q)"
proof -
  let ?a = "strip_fmt q"
  let ?b = "sep_to_space ?a"
  let ?c = "collapse_ws ?b"
  let ?d = "lead_trim ?c"
  let ?e = "trail_trim ?d"
  have b: "\<forall>x\<in>set ?b. \<not> is_markup x"
  proof
    fix x
    assume "x \<in> set ?b"
    with set_sep_to_space [of ?a] have "x \<in> set ?a \<and> x \<noteq> u_bar \<or> x = u_sp" by blast
    with strip_fmt_markup [of x q] show "\<not> is_markup x" by auto
  qed
  have c: "\<forall>x\<in>set ?c. \<not> is_markup x \<and> (is_js_space x \<longrightarrow> x = u_sp)"
  proof
    fix x
    assume "x \<in> set ?c"
    with set_collapse_ws [of ?b] have "x \<in> set ?b \<and> \<not> is_js_space x \<or> x = u_sp" by blast
    with b show "\<not> is_markup x \<and> (is_js_space x \<longrightarrow> x = u_sp)" by auto
  qed
  have cn: "no_adj u_sp ?c" "no_adj u_colon ?c"
    by (rule no_adj_collapse_sp, rule no_adj_colon_collapse, rule no_adj_colon_sep_to_space)
  have dset: "set ?d \<subseteq> set ?c" unfolding lead_trim_eq by (rule set_dropWhileD [THEN subsetI])
  have dn: "no_adj u_sp ?d" "no_adj u_colon ?d"
    using cn unfolding lead_trim_eq by (auto intro: no_adj_dropWhile)
  have dhd: "?d \<noteq> [] \<Longrightarrow> \<not> lead_char (hd ?d)"
    unfolding lead_trim_eq by (rule hd_dropWhile_not)
  from trail_trim_props [OF dn] have eset: "set ?e \<subseteq> set ?d \<union> {u_sp}"
    and en: "no_adj u_sp ?e" "no_adj u_colon ?e"
    and ehd: "?d \<noteq> [] \<Longrightarrow> \<not> cls_mem trail_class (hd ?d) \<Longrightarrow> ?e \<noteq> [] \<and> hd ?e = hd ?d"
    by blast+
  have chars: "\<forall>x\<in>set ?e. \<not> is_markup x \<and> (is_js_space x \<longrightarrow> x = u_sp)"
  proof
    fix x
    assume "x \<in> set ?e"
    then have "x \<in> set ?c \<or> x = u_sp" using eset dset by blast
    with c show "\<not> is_markup x \<and> (is_js_space x \<longrightarrow> x = u_sp)" by auto
  qed
  have hd: "?e \<noteq> [] \<Longrightarrow> \<not> lead_char (hd ?e)"
  proof -
    assume "?e \<noteq> []"
    then have "?d \<noteq> []" by auto
    with ehd dhd trail_class_lead show ?thesis by metis
  qed
  show ?thesis
    unfolding query_normal_def normalize_query_def using chars en hd by blast
qed

text \<open>
  C35: the trailing class of line 41 is a range that stops before the hyphen, so a query
  typed with a trailing hyphen keeps it as its last literal: with the end option on, every
  match of its expression ends right after a hyphen of the text that is directly followed by
  a word character. So \<^verbatim>\<open>vor-\<close> never finds \<^verbatim>\<open>Vor- und Nachteile\<close>,
  where \<^verbatim>\<open>vor,\<close> (whose comma becomes the end anchor) does.
\<close>

theorem trailing_hyphen_kept:
  assumes "opt_end opts" and "makeRE (q @ [u_hyphen]) opts = Some re" and "re_exec re t = Some (i, j)"
  shows "0 < j \<and> t ! (j - 1) = u_hyphen \<and> j < length t \<and> is_word_char (t ! j)"
proof -
  obtain s where s: "rp_search (query_parts (q @ [u_hyphen]) opts) = s @ [u_hyphen]"
    and e: "rp_end (query_parts (q @ [u_hyphen]) opts) = RWordB"
    using query_parts_hyphen [of q opts] assms(1) by auto
  let ?ic = "re_ignoreCase re"
  have body: "re_body re = RSeq (rp_start (query_parts (q @ [u_hyphen]) opts))
                (RSeq (search_rx (s @ [u_hyphen])) RWordB)"
    using assms(2) s e by (auto simp: makeRE_def Let_def split: if_splits)
  have "rx_acc ?ic t (re_body re) i j" using re_exec_Some [OF assms(3)] by blast
  then obtain m k where "rx_acc ?ic t (search_rx (s @ [u_hyphen])) m k" and kj: "k = j"
    and b: "at_boundary t j"
    unfolding body by auto
  then have "0 < j \<and> j \<le> length t \<and> canon ?ic (t ! (j - 1)) = canon ?ic u_hyphen"
    using acc_atoms_last [of ?ic t s u_hyphen m k] by (simp add: search_rx_snoc search_atom_def)
  then have h: "0 < j" "t ! (j - 1) = u_hyphen" by (auto dest: canon_hyphen)
  with b show ?thesis
    by (auto simp: at_boundary_def word_at_def is_word_char_def)
qed

text \<open>
  C2: \<^verbatim>\<open>escapeRE\<close> (line 31) and the \<^verbatim>\<open>\\*\<close> rewrite of line 58 produce a pattern
  source that ECMAScript reads back as exactly the query: one literal atom for every
  query character and \<^verbatim>\<open>\S*\<close> for every \<^verbatim>\<open>*\<close>, so no character of the query
  acts as pattern syntax (a backslash left unescaped would turn \<^verbatim>\<open>\d\<close> into the
  digit class).
\<close>

theorem escapeRE_pattern: "parse_pattern (star_to_class (escapeRE s)) = Some (search_rx s)"
proof (induction s)
  case Nil
  then show ?case by (simp add: escapeRE_def search_rx_def parse_pattern.simps)
next
  case (Cons c s)
  have ne: "atom_src c @ star_to_class (escapeRE s) \<noteq> []" by (simp add: atom_src_def)
  have "split_term (atom_src c @ star_to_class (escapeRE s)) = Some (search_atom c, star_to_class (escapeRE s))"
    using escape_src_hd [of s] by (intro split_term_atom) auto
  with Cons.IH ne show ?case
    by (simp add: escape_src_Cons parse_pattern.simps [of "atom_src c @ _"] search_rx_def)
qed

theorem contains_plain_word_witness:
  "plain_query (js_lit ''haus'') \<and>
   (\<exists>re. makeRE (js_lit ''haus'') default_options = Some re \<and> contains (js_lit ''Haus :: house'') re)"
proof -
  have p: "plain_query (js_lit ''haus'')"
    by (simp add: plain_query_def normalize_query_def strip_fmt_def lead_trim_def trail_trim_def
        trail_class_def js_lit_def is_js_space_def)
  obtain re where re: "makeRE (js_lit ''haus'') default_options = Some re"
    and iff: "contains (js_lit ''Haus :: house'') re \<longleftrightarrow>
      (\<exists>i. occurs_at True (js_lit ''haus'') (js_lit ''Haus :: house'') i \<and>
           at_boundary (js_lit ''Haus :: house'') i \<and>
           (True \<longrightarrow> at_boundary (js_lit ''Haus :: house'') (i + length (js_lit ''haus''))))"
    using contains_plain_word [OF p, of default_options "js_lit ''Haus :: house''"]
    by (auto simp: default_options_def)
  have "\<exists>i. occurs_at True (js_lit ''haus'') (js_lit ''Haus :: house'') i \<and>
           at_boundary (js_lit ''Haus :: house'') i \<and>
           (True \<longrightarrow> at_boundary (js_lit ''Haus :: house'') (i + length (js_lit ''haus'')))"
    by (intro exI [of _ 0]) (simp add: occurs_at_def rx_eval)
  with iff re p show ?thesis by blast
qed

theorem contains_prefix_wildcard_witness:
  "plain_query (js_lit ''foo'') \<and>
   (\<exists>re. makeRE (js_lit ''foo'' @ [u_star]) default_options = Some re \<and> contains (js_lit ''foobar'') re)"
proof -
  have p: "plain_query (js_lit ''foo'')"
    by (simp add: plain_query_def normalize_query_def strip_fmt_def lead_trim_def trail_trim_def
        trail_class_def js_lit_def is_js_space_def)
  obtain re where re: "makeRE (js_lit ''foo'' @ [u_star]) default_options = Some re"
    and iff: "contains (js_lit ''foobar'') re \<longleftrightarrow>
      (\<exists>i. occurs_at True (js_lit ''foo'') (js_lit ''foobar'') i \<and> at_boundary (js_lit ''foobar'') i)"
    using contains_prefix_wildcard [OF p, of default_options "js_lit ''foobar''"]
    by (auto simp: default_options_def)
  have "\<exists>i. occurs_at True (js_lit ''foo'') (js_lit ''foobar'') i \<and> at_boundary (js_lit ''foobar'') i"
    by (intro exI [of _ 0]) (simp add: occurs_at_def rx_eval)
  with iff re p show ?thesis by blast
qed

theorem trailing_hyphen_kept_witness:
  "re_exec (the (makeRE (js_lit ''vor'' @ [u_hyphen]) default_options)) (js_lit ''Vor-abend'') = Some (0, 4) \<and>
   js_lit ''Vor-abend'' ! (4 - 1) = u_hyphen \<and> is_word_char (js_lit ''Vor-abend'' ! 4)"
proof -
  let ?re = "the (makeRE (js_lit ''vor'' @ [u_hyphen]) default_options)"
  have re: "makeRE (js_lit ''vor'' @ [u_hyphen]) default_options = Some ?re"
    by (simp add: query_eval rx_eval)
  have x: "re_exec ?re (js_lit ''Vor-abend'') = Some (0, 4)"
    by (simp add: query_eval rx_eval)
  have "opt_end default_options" by (simp add: query_eval)
  from trailing_hyphen_kept [OF this re x] x show ?thesis by simp
qed

end
