(* ===== verification/Scorer.thy ===== *)
theory Scorer
  imports Query
begin

text \<open>
  The relevance weight of a matched entry, \<^verbatim>\<open>getWeight\<close> (lines 100--126 of
  \<^verbatim>\<open>src/res/deng.js\<close>). The entry is first cleaned (line 102): every
  \<^verbatim>\<open>(...)\<close>, \<^verbatim>\<open>[...]\<close>, \<^verbatim>\<open>{...}\<close> and \<^verbatim>\<open><...>\<close> span is deleted and runs of
  two or more spaces become one. The first match of the search expression in the cleaned
  text earns 1, 4 more when it starts the text or follows a separator (optionally followed
  by \<^verbatim>\<open>to \<close>), 2 more when it ends the text or is followed by a separator, and 1 more
  when the expression also matches the first sub-entry of the first or of the second side.
  The two separator tests of lines 111 and 117 are regular expressions without flags and
  run on the matcher of \<open>JsRegex\<close>. When the cleaned entry has no \<^verbatim>\<open> :: \<close>,
  \<^verbatim>\<open>parts[1]\<close> is \<^verbatim>\<open>undefined\<close> and \<^verbatim>\<open>parts[1].split\<close> throws: the model returns
  \<open>Inl TypeError\<close> there, unless the first test of line 122 already succeeded.
\<close>

subsection \<open>Cleaning the entry (line 102)\<close>

text \<open>The closing code unit of an annotation span opened by \<open>c\<close>.\<close>

definition annot_close :: "cu \<Rightarrow> cu option" where
  "annot_close c =
     (if c = u_lpar then Some u_rpar else if c = u_lbrack then Some u_rbrack
      else if c = u_lbrace then Some u_rbrace else if c = u_lt then Some u_gt else None)"

text \<open>
  \<^verbatim>\<open>replace(/\([^)]*\)|\[[^\]]*\]|\{[^}]*\}|<[^>]*>/g, '')\<close>: at an opening code unit,
  the span up to the first matching closer is deleted; an opener with no closer after it
  is kept and the scan goes on behind it.
\<close>

function strip_annot :: "jstring \<Rightarrow> jstring" where
  "strip_annot [] = []"
| "strip_annot (c # cs) =
     (case annot_close c of
        None \<Rightarrow> c # strip_annot cs
      | Some d \<Rightarrow>
          if d \<in> set cs then strip_annot (tl (dropWhile (\<lambda>x. x \<noteq> d) cs))
          else c # strip_annot cs)"
  by pat_completeness auto
termination
proof (relation "measure length")
  fix c cs d
  have "length (dropWhile (\<lambda>x. x \<noteq> d) cs) - 1 \<le> length cs"
    using length_dropWhile_le [of "\<lambda>x. x \<noteq> d" cs] by arith
  then show "(tl (dropWhile (\<lambda>x. x \<noteq> d) cs), c # cs) \<in> measure length" by simp
qed auto

text \<open>\<^verbatim>\<open>replace(/ {2,}/g, ' ')\<close>.\<close>

function collapse_sp :: "jstring \<Rightarrow> jstring" where
  "collapse_sp [] = []"
| "collapse_sp (c # cs) =
     (if c = u_sp then u_sp # collapse_sp (dropWhile (\<lambda>x. x = u_sp) cs)
      else c # collapse_sp cs)"
  by pat_completeness auto
termination
  by (relation "measure length") (auto simp: le_imp_less_Suc length_dropWhile_le)

definition clean_entry :: "jstring \<Rightarrow> jstring" where
  "clean_entry e = collapse_sp (strip_annot e)"

subsection \<open>The separator tests (lines 111 and 117)\<close>

definition sep_alt_rx :: rx where
  "sep_alt_rx = RAlt (rx_str (js_lit '' | '')) (RAlt (rx_str (js_lit '' :: '')) (rx_str (js_lit ''; '')))"

text \<open>\<^verbatim>\<open>/(?: \| | :: |; )(?:to )?$/\<close>\<close>

definition sep_before_re :: regexp where
  "sep_before_re =
     \<lparr>re_body = RSeq sep_alt_rx (RSeq (ROpt (rx_str (js_lit ''to ''))) REol), re_ignoreCase = False\<rparr>"

text \<open>\<^verbatim>\<open>/^(?: \| | :: |; )/\<close>\<close>

definition sep_after_re :: regexp where
  "sep_after_re = \<lparr>re_body = RSeq RBol sep_alt_rx, re_ignoreCase = False\<rparr>"

subsection \<open>getWeight\<close>

definition getWeight :: "jstring \<Rightarrow> regexp \<Rightarrow> js_error + nat" where
  "getWeight entry search =
     (let e = clean_entry entry in
      case re_exec search e of
        None \<Rightarrow> Inr 0
      | Some (i, j) \<Rightarrow>
          (let w = 1 + (if i = 0 \<or> re_test sep_before_re (take i e) then 4 else 0)
                     + (if j = length e \<or> re_test sep_after_re (drop j e) then 2 else 0);
               parts = js_split (js_lit '' :: '') e
           in if re_test search (hd (js_split (js_lit '' | '') (parts ! 0))) then Inr (w + 1)
              else case js_nth parts 1 of
                     None \<Rightarrow> Inl TypeError
                   | Some p1 \<Rightarrow>
                       Inr (if re_test search (hd (js_split (js_lit '' | '') p1)) then w + 1 else w)))"

subsection \<open>The weight as the specification states it\<close>

text \<open>
  Section 4.3 of the specification in terms of strings: the match starts a unit when it
  is at position 0 or the text before it ends with a separator, optionally followed by
  \<^verbatim>\<open>to \<close>; it ends a unit when it reaches the end or the text after it starts with a
  separator; the headword bonus is for a match of the first sub-entry of either side.
\<close>

definition seps :: "jstring list" where
  "seps = [js_lit '' | '', js_lit '' :: '', js_lit ''; '']"

definition starts_unit :: "jstring \<Rightarrow> nat \<Rightarrow> bool" where
  "starts_unit c i \<longleftrightarrow>
     i = 0 \<or> (\<exists>sep\<in>set seps. ends_with sep (take i c) \<or> ends_with (sep @ js_lit ''to '') (take i c))"

definition ends_unit :: "jstring \<Rightarrow> nat \<Rightarrow> bool" where
  "ends_unit c j \<longleftrightarrow> j = length c \<or> (\<exists>sep\<in>set seps. starts_with sep (drop j c))"

definition headword_hit :: "regexp \<Rightarrow> jstring \<Rightarrow> bool" where
  "headword_hit re c \<longleftrightarrow>
     (let parts = js_split (js_lit '' :: '') c
      in re_test re (hd (js_split (js_lit '' | '') (hd parts))) \<or>
         (1 < length parts \<and> re_test re (hd (js_split (js_lit '' | '') (parts ! 1)))))"

definition weight_spec :: "regexp \<Rightarrow> jstring \<Rightarrow> nat" where
  "weight_spec re e =
     (let c = clean_entry e in
      case re_exec re c of
        None \<Rightarrow> 0
      | Some (i, j) \<Rightarrow>
          1 + (if starts_unit c i then 4 else 0) + (if ends_unit c j then 2 else 0) +
          (if headword_hit re c then 1 else 0))"

lemmas score_eval = getWeight_def clean_entry_def annot_close_def sep_before_re_def sep_after_re_def
       sep_alt_rx_def starts_with_def js_split.simps js_nth_def

subsection \<open>The separator expressions as string tests\<close>

lemma ends_with_occurs:
  "(\<exists>i\<le>length s. occurs_at False w s i \<and> i + length w = length s) \<longleftrightarrow> ends_with w s"
  using occurs_at_end_iff [of w s] by (auto simp: ends_with_def)

lemma sep_tail_acc:
  assumes "m \<le> length s"
  shows "(\<exists>j. rx_acc False s (RSeq (ROpt (rx_str (js_lit ''to ''))) REol) m j) \<longleftrightarrow>
    (occurs_at False (js_lit ''to '') s m \<and> m + 3 = length s) \<or> m = length s"
  using assms by (auto simp: rx_acc_RSeq_ROpt rx_acc_str_seq simp del: rx_acc.simps(7))

lemma sep_then_tail:
  "(\<exists>i\<le>length s. \<exists>j. rx_acc False s (RSeq (rx_str w) (RSeq (ROpt (rx_str (js_lit ''to ''))) REol)) i j) \<longleftrightarrow>
   ends_with (w @ js_lit ''to '') s \<or> ends_with w s"
proof -
  have "(\<exists>j. rx_acc False s (RSeq (rx_str w) (RSeq (ROpt (rx_str (js_lit ''to ''))) REol)) i j) \<longleftrightarrow>
        (occurs_at False (w @ js_lit ''to '') s i \<and> i + length (w @ js_lit ''to '') = length s) \<or>
        (occurs_at False w s i \<and> i + length w = length s)" if "i \<le> length s" for i
  proof -
    have "occurs_at False w s i \<Longrightarrow> i + length w \<le> length s" by (simp add: occurs_at_def)
    then show ?thesis using that sep_tail_acc [of "i + length w" s]
      by (auto simp: rx_acc_str_seq occurs_at_append simp del: rx_acc.simps(7))
  qed
  then show ?thesis by (auto simp: ends_with_occurs [symmetric])
qed

lemma str_at_start:
  "(\<exists>j. rx_acc False s (rx_str w) 0 j) \<longleftrightarrow> starts_with w s"
  by (simp add: rx_acc_str occurs_at_start_iff)

lemma sep_before_re_iff:
  "re_test sep_before_re s \<longleftrightarrow>
   (\<exists>sep\<in>{js_lit '' | '', js_lit '' :: '', js_lit ''; ''}.
      ends_with sep s \<or> ends_with (sep @ js_lit ''to '') s)"
proof -
  let ?T = "RSeq (ROpt (rx_str (js_lit ''to ''))) REol"
  have "re_test sep_before_re s \<longleftrightarrow>
    (\<exists>i\<le>length s. \<exists>j. rx_acc False s (RSeq (rx_str (js_lit '' | '')) ?T) i j) \<or>
    (\<exists>i\<le>length s. \<exists>j. rx_acc False s (RSeq (rx_str (js_lit '' :: '')) ?T) i j) \<or>
    (\<exists>i\<le>length s. \<exists>j. rx_acc False s (RSeq (rx_str (js_lit ''; '')) ?T) i j)"
    unfolding re_test_iff_acc sep_before_re_def sep_alt_rx_def regexp.simps rx_acc_RSeq_RAlt by blast
  then show ?thesis unfolding sep_then_tail by blast
qed

lemma sep_after_re_iff:
  "re_test sep_after_re s \<longleftrightarrow>
   (\<exists>sep\<in>{js_lit '' | '', js_lit '' :: '', js_lit ''; ''}. starts_with sep s)"
proof -
  have "re_test sep_after_re s \<longleftrightarrow>
    (\<exists>j. rx_acc False s (rx_str (js_lit '' | '')) 0 j) \<or>
    (\<exists>j. rx_acc False s (rx_str (js_lit '' :: '')) 0 j) \<or>
    (\<exists>j. rx_acc False s (rx_str (js_lit ''; '')) 0 j)"
    unfolding re_test_iff_acc sep_after_re_def sep_alt_rx_def regexp.simps rx_acc_RSeq_RBol by auto
  then show ?thesis unfolding str_at_start by blast
qed

subsection \<open>Properties of the weight\<close>

text \<open>
  C5: \<^verbatim>\<open>getWeight\<close> computes the weight of section 4.3 of the specification: whenever
  it returns a weight, that weight is \<open>weight_spec\<close>, the sum of the four bonuses read as
  string conditions on the cleaned entry (the two regular expressions of lines 111 and
  117 test exactly the separator conditions).
\<close>

theorem getWeight_refines_spec:
  "getWeight e re = Inr w \<Longrightarrow> w = weight_spec re e"
proof -
  assume g: "getWeight e re = Inr w"
  let ?c = "clean_entry e"
  let ?parts = "js_split (js_lit '' :: '') ?c"
  have ne: "?parts \<noteq> []" by (simp add: str_simps)
  then have hd: "hd ?parts = ?parts ! 0" by (simp add: hd_conv_nth)
  have su: "(i = 0 \<or> re_test sep_before_re (take i ?c)) \<longleftrightarrow> starts_unit ?c i" for i
    by (simp add: starts_unit_def seps_def sep_before_re_iff)
  have eu: "(j = length ?c \<or> re_test sep_after_re (drop j ?c)) \<longleftrightarrow> ends_unit ?c j" for j
    by (simp add: ends_unit_def seps_def sep_after_re_iff)
  show "w = weight_spec re e"
  proof (cases "re_exec re ?c")
    case None
    with g show ?thesis by (simp add: getWeight_def weight_spec_def)
  next
    case (Some m)
    then obtain i j where m: "re_exec re ?c = Some (i, j)" by (cases m) auto
    with g show ?thesis
      by (auto simp: getWeight_def weight_spec_def headword_hit_def Let_def su eu hd js_nth_def
          split: if_splits option.splits)
  qed
qed

text \<open>
  C6: the weight is 0 exactly when the search expression does not match the cleaned
  entry. An entry the filter keeps (it matches the raw text) still weighs 0 when its only
  match lies inside an annotation span that cleaning removes.
\<close>

theorem getWeight_zero_iff:
  "getWeight e re = Inr 0 \<longleftrightarrow> re_exec re (clean_entry e) = None"
  by (auto simp: getWeight_def Let_def split: option.splits if_splits)

text \<open>
  C7: \<^verbatim>\<open>getWeight\<close> throws a \<^verbatim>\<open>TypeError\<close> exactly when the cleaned entry matches,
  its first sub-entry does not, and it has no \<^verbatim>\<open> :: \<close> separator, so that
  \<^verbatim>\<open>parts[1]\<close> is \<^verbatim>\<open>undefined\<close>. Entries whose cleaned text keeps the separator
  always get a weight.
\<close>

theorem getWeight_TypeError_iff:
  "getWeight e re = Inl TypeError \<longleftrightarrow>
   re_exec re (clean_entry e) \<noteq> None \<and>
   \<not> re_test re (hd (js_split (js_lit '' | '') (clean_entry e))) \<and>
   index_of (js_lit '' :: '') (clean_entry e) = None"
proof (cases "index_of (js_lit '' :: '') (clean_entry e)")
  case None
  then show ?thesis
    by (auto simp: getWeight_def Let_def str_simps js_lit_def split: option.splits)
next
  case (Some j)
  then show ?thesis
    by (auto simp: getWeight_def Let_def str_simps js_nth_def js_lit_def split: option.splits)
qed

theorem getWeight_zero_iff_witness:
  "contains (js_lit ''Geb'' @ [228] @ js_lit ''ude {Haus} :: building'')
     (the (makeRE (js_lit ''haus'') default_options)) \<and>
   getWeight (js_lit ''Geb'' @ [228] @ js_lit ''ude {Haus} :: building'')
     (the (makeRE (js_lit ''haus'') default_options)) = Inr 0"
proof -
  let ?e = "js_lit ''Geb'' @ [228] @ js_lit ''ude {Haus} :: building''"
  let ?re = "the (makeRE (js_lit ''haus'') default_options)"
  have "re_exec ?re (clean_entry ?e) = None"
    by (simp add: score_eval query_eval rx_eval)
  moreover have "contains ?e ?re"
    by (simp add: query_eval rx_eval)
  ultimately show ?thesis using getWeight_zero_iff [of ?e ?re] by blast
qed

theorem getWeight_TypeError_iff_witness:
  "getWeight (js_lit ''a | haus'') (the (makeRE (js_lit ''haus'') default_options)) = Inl TypeError"
proof -
  let ?e = "js_lit ''a | haus''"
  let ?re = "the (makeRE (js_lit ''haus'') default_options)"
  have "re_exec ?re (clean_entry ?e) \<noteq> None \<and>
     \<not> re_test ?re (hd (js_split (js_lit '' | '') (clean_entry ?e))) \<and>
     index_of (js_lit '' :: '') (clean_entry ?e) = None"
    by (simp add: score_eval query_eval rx_eval)
  then show ?thesis using getWeight_TypeError_iff [of ?e ?re] by blast
qed

theorem getWeight_refines_spec_witness:
  "weight_spec (the (makeRE (js_lit ''gehen'') default_options)) (js_lit ''gehen :: to go'') = 8"
proof -
  have "getWeight (js_lit ''gehen :: to go'') (the (makeRE (js_lit ''gehen'') default_options)) = Inr 8"
    by (simp add: score_eval query_eval rx_eval)
  from getWeight_refines_spec [OF this] show ?thesis by simp
qed

end
