(* ===== verification/Formatter.thy ===== *)
theory Formatter
  imports Query
begin

text \<open>
  The entry formatter of \<^verbatim>\<open>src/res/deng.js\<close>: \<^verbatim>\<open>formatEntry\<close> (lines 66--72) turns
  one side of a sub-entry into HTML, \<^verbatim>\<open>formatLine\<close> (lines 74--98) turns a corpus line
  into table rows. The three global replaces of \<^verbatim>\<open>formatEntry\<close> are scanners; the
  highlight of line 71 replaces the first match of the search expression in the text as
  the earlier replaces left it. \<^verbatim>\<open>formatLine\<close> pairs the sub-entries of the two sides by
  position: a missing partner on the English side is \<^verbatim>\<open>undefined\<close> (\<open>None\<close>), which
  \<^verbatim>\<open>re.test\<close> reads as the string \<^verbatim>\<open>"undefined"\<close> and on which \<^verbatim>\<open>replace\<close>
  throws; a line without \<^verbatim>\<open> :: \<close> has no second side at all, and reading
  \<^verbatim>\<open>line[1][i]\<close> throws. The structure of the rows (text, role, open or closed) is the
  record \<open>display_row\<close>; \<open>render_row\<close> writes one row's HTML.
\<close>

subsection \<open>formatEntry\<close>

text \<open>Line 68: \<^verbatim>\<open>replace(/&/g, '&amp;')\<close>.\<close>

definition esc_amp :: "jstring \<Rightarrow> jstring" where
  "esc_amp s = concat (map (\<lambda>c. if c = u_amp then js_lit ''&amp;'' else [c]) s)"

text \<open>
  Line 69: \<^verbatim>\<open>replace(/<([^<>]*)>/g, '<small>&lt;$1&gt;</small>')\<close>. At a \<^verbatim>\<open><\<close>
  the body runs to the first \<^verbatim>\<open><\<close> or \<^verbatim>\<open>>\<close>; only a \<^verbatim>\<open>>\<close> there closes a match.
\<close>

function wrap_angle :: "jstring \<Rightarrow> jstring" where
  "wrap_angle [] = []"
| "wrap_angle (c # cs) =
     (if c = u_lt then
        (let body = takeWhile (\<lambda>x. x \<noteq> u_lt \<and> x \<noteq> u_gt) cs;
             rest = drop (length body) cs
         in if rest \<noteq> [] \<and> hd rest = u_gt
            then js_lit ''<small>&lt;'' @ body @ js_lit ''&gt;</small>'' @ wrap_angle (tl rest)
            else c # wrap_angle cs)
      else c # wrap_angle cs)"
  by pat_completeness auto
termination
  by (relation "measure length") auto

text \<open>
  Line 70: \<^verbatim>\<open>replace(/(\[[^\[\]]+\]|\{[^\{\}]+\})/g, '<i>$1</i>')\<close>: a non-empty body
  without brackets of the same kind, closed by the matching bracket.
\<close>

definition bracket_close :: "cu \<Rightarrow> cu option" where
  "bracket_close c = (if c = u_lbrack then Some u_rbrack else if c = u_lbrace then Some u_rbrace else None)"

function wrap_optional :: "jstring \<Rightarrow> jstring" where
  "wrap_optional [] = []"
| "wrap_optional (c # cs) =
     (case bracket_close c of
        None \<Rightarrow> c # wrap_optional cs
      | Some d \<Rightarrow>
          (let body = takeWhile (\<lambda>x. x \<noteq> c \<and> x \<noteq> d) cs;
               rest = drop (length body) cs
           in if body \<noteq> [] \<and> rest \<noteq> [] \<and> hd rest = d
              then js_lit ''<i>'' @ c # body @ d # js_lit ''</i>'' @ wrap_optional (tl rest)
              else c # wrap_optional cs))"
  by pat_completeness auto
termination
  by (relation "measure length") auto

text \<open>
  \<^verbatim>\<open>s.replace(re, f)\<close> for a non-global expression: the first match, if any, is
  replaced by \<open>f\<close> of the matched text.
\<close>

definition re_replace_first :: "regexp \<Rightarrow> (jstring \<Rightarrow> jstring) \<Rightarrow> jstring \<Rightarrow> jstring" where
  "re_replace_first re f s =
     (case re_exec re s of
        None \<Rightarrow> s
      | Some (i, j) \<Rightarrow> take i s @ f (take (j - i) (drop i s)) @ drop j s)"

text \<open>Line 71: \<^verbatim>\<open>replace(highlight, '<mark>$1</mark>')\<close>; group 1 is the whole match.\<close>

definition mark :: "jstring \<Rightarrow> jstring" where
  "mark m = js_lit ''<mark>'' @ m @ js_lit ''</mark>''"

definition formatEntry :: "jstring \<Rightarrow> regexp \<Rightarrow> jstring" where
  "formatEntry entry highlight =
     re_replace_first highlight mark (wrap_optional (wrap_angle (esc_amp entry)))"

subsection \<open>formatLine\<close>

text \<open>\<^verbatim>\<open>re.test(v)\<close> for a value that may be \<^verbatim>\<open>undefined\<close>.\<close>

definition contains_val :: "jstring option \<Rightarrow> regexp \<Rightarrow> bool" where
  "contains_val v re = contains (case v of None \<Rightarrow> js_lit ''undefined'' | Some s \<Rightarrow> s) re"

datatype row_role = OnlyLine | MainLine | SubLine

record display_row =
  dr_de :: jstring
  dr_en :: "jstring option"
  dr_role :: row_role
  dr_open :: bool

text \<open>Lines 76--81: the sides split at \<^verbatim>\<open> :: \<close>, each side at \<^verbatim>\<open> | \<close>, paired by index.\<close>

definition line_pairs :: "jstring \<Rightarrow> js_error + (jstring \<times> jstring option) list" where
  "line_pairs line =
     (let parts = map (js_split (js_lit '' | '')) (js_split (js_lit '' :: '') line)
      in if length parts < 2 then Inl TypeError
         else Inr (map (\<lambda>i. (parts ! 0 ! i, js_nth (parts ! 1) i)) [0..<length (parts ! 0)]))"

text \<open>Lines 82--87: whether the line opens, and the pairs kept (with their index).\<close>

definition pair_matches :: "regexp \<Rightarrow> jstring \<times> jstring option \<Rightarrow> bool" where
  "pair_matches hl p = (contains (fst p) hl \<or> contains_val (snd p) hl)"

definition select_pairs :: "regexp \<Rightarrow> (jstring \<times> jstring option) list \<Rightarrow> bool \<times> (jstring \<times> jstring option) list" where
  "select_pairs hl ps =
     (if \<not> pair_matches hl (hd ps)
      then (True, map snd (filter (\<lambda>(i, p). i = 0 \<or> pair_matches hl p) (zip [0..<length ps] ps)))
      else (False, ps))"

text \<open>Lines 88--93: the role and the open/closed class of each kept row.\<close>

definition row_roles :: "bool \<Rightarrow> (jstring \<times> jstring option) list \<Rightarrow> display_row list" where
  "row_roles opn ps =
     map (\<lambda>i. \<lparr>dr_de = fst (ps ! i), dr_en = snd (ps ! i),
               dr_role = (if i = 0 then (if length ps = 1 then OnlyLine else MainLine) else SubLine),
               dr_open = opn\<rparr>) [0..<length ps]"

definition format_rows :: "jstring \<Rightarrow> regexp \<Rightarrow> js_error + display_row list" where
  "format_rows line hl =
     (case line_pairs line of
        Inl e \<Rightarrow> Inl e
      | Inr ps \<Rightarrow> (let (opn, kept) = select_pairs hl ps in Inr (row_roles opn kept)))"

definition role_class :: "row_role \<Rightarrow> jstring" where
  "role_class r =
     (case r of OnlyLine \<Rightarrow> js_lit ''only-line'' | MainLine \<Rightarrow> js_lit ''main-line''
      | SubLine \<Rightarrow> js_lit ''sub-line'')"

text \<open>Lines 89--96: one row's HTML; \<^verbatim>\<open>formatEntry(undefined)\<close> throws.\<close>

definition render_row :: "regexp \<Rightarrow> display_row \<Rightarrow> js_error + jstring" where
  \<open>render_row hl r =
     (case dr_en r of
        None \<Rightarrow> Inl TypeError
      | Some en \<Rightarrow>
          Inr (js_lit ''<tr class="'' @ role_class (dr_role r) @ js_lit '' '' @
               (if dr_open r then js_lit ''open'' else js_lit ''closed'') @ js_lit ''">'' @
               js_lit ''<td lang="de">'' @ formatEntry (dr_de r) hl @ js_lit ''</td>'' @
               js_lit ''<td lang="en">'' @ formatEntry en hl @ js_lit ''</td></tr>''))\<close>

definition formatLine :: "jstring \<Rightarrow> regexp \<Rightarrow> js_error + jstring" where
  "formatLine line hl =
     (case format_rows line hl of
        Inl e \<Rightarrow> Inl e
      | Inr rows \<Rightarrow> (case map_err (render_row hl) rows of Inl e \<Rightarrow> Inl e | Inr hs \<Rightarrow> Inr (concat hs)))"

abbreviation haus_re :: regexp where
  "haus_re \<equiv> the (makeRE (js_lit ''haus'') default_options)"

lemmas line_eval = format_rows_def line_pairs_def select_pairs_def pair_matches_def contains_val_def
  row_roles_def js_split.simps js_nth_def starts_with_def

lemmas entry_eval = formatEntry_def re_replace_first_def mark_def esc_amp_def bracket_close_def

subsection \<open>Pairs and rows\<close>

lemma filter_zip_from:
  "map snd (filter (\<lambda>(i, p). i = 0 \<or> P p) (zip [Suc k..<Suc k + length qs] qs)) = filter P qs"
proof (induction qs arbitrary: k)
  case Nil
  then show ?case by simp
next
  case (Cons q qs)
  have "[Suc k..<Suc k + length (q # qs)] = Suc k # [Suc (Suc k)..<Suc (Suc k) + length qs]"
    by (simp add: upt_rec)
  then show ?case using Cons.IH [of "Suc k"] by simp
qed

lemma select_pairs_eq:
  assumes "ps \<noteq> []"
  shows "select_pairs hl ps =
    (\<not> pair_matches hl (hd ps),
     if pair_matches hl (hd ps) then ps else hd ps # filter (pair_matches hl) (tl ps))"
proof -
  obtain p qs where ps: "ps = p # qs" using assms by (cases ps) auto
  have "[0..<length ps] = 0 # [Suc 0..<Suc 0 + length qs]" by (simp add: ps upt_rec)
  then have "map snd (filter (\<lambda>(i, p). i = 0 \<or> pair_matches hl p) (zip [0..<length ps] ps)) =
     p # filter (pair_matches hl) qs"
    using filter_zip_from [where k = 0 and P = "pair_matches hl" and qs = qs] by (simp add: ps)
  then show ?thesis by (simp add: select_pairs_def ps)
qed

lemma line_pairs_Inr:
  "line_pairs line = Inr ps \<Longrightarrow>
   2 \<le> length (js_split (js_lit '' :: '') line) \<and> ps \<noteq> [] \<and>
   ps = map (\<lambda>i. (js_split (js_lit '' | '') (js_split (js_lit '' :: '') line ! 0) ! i,
                   js_nth (js_split (js_lit '' | '') (js_split (js_lit '' :: '') line ! 1)) i))
         [0..<length (js_split (js_lit '' | '') (js_split (js_lit '' :: '') line ! 0))]"
proof -
  assume a: "line_pairs line = Inr ps"
  let ?parts = "js_split (js_lit '' :: '') line"
  have l: "2 \<le> length ?parts"
    using a by (auto simp: line_pairs_def Let_def split: if_splits)
  then have "0 < length ?parts" and "1 < length ?parts" by arith+
  with a l show ?thesis by (auto simp: line_pairs_def Let_def str_simps)
qed

lemma line_pairs_ok:
  "2 \<le> length (js_split (js_lit '' :: '') line) \<Longrightarrow> \<exists>ps. line_pairs line = Inr ps"
  by (simp add: line_pairs_def Let_def)

lemma row_roles_shape:
  "map (\<lambda>r. (dr_de r, dr_en r)) (row_roles opn ps) = ps \<and>
   map dr_open (row_roles opn ps) = replicate (length ps) opn \<and>
   map dr_role (row_roles opn ps) =
     (if ps = [] then [] else if length ps = 1 then [OnlyLine] else MainLine # replicate (length ps - 1) SubLine)"
  by (auto simp: row_roles_def intro: nth_equalityI simp: nth_Cons')

lemma render_row_ne: "render_row hl r = Inr h \<Longrightarrow> h \<noteq> []"
  by (auto simp: render_row_def js_lit_def split: option.splits)

lemma format_rows_Inr:
  assumes "format_rows line hl = Inr rows"
  shows "\<exists>ps. line_pairs line = Inr ps \<and> ps \<noteq> [] \<and>
    rows = row_roles (\<not> pair_matches hl (hd ps))
             (if pair_matches hl (hd ps) then ps else hd ps # filter (pair_matches hl) (tl ps))"
proof -
  obtain ps where ps: "line_pairs line = Inr ps"
    using assms by (cases "line_pairs line") (auto simp: format_rows_def)
  then have "ps \<noteq> []" by (auto dest: line_pairs_Inr)
  with ps assms show ?thesis by (auto simp: format_rows_def select_pairs_eq)
qed

lemma format_rows_ne: "format_rows line hl = Inr rows \<Longrightarrow> rows \<noteq> []"
  by (auto dest!: format_rows_Inr simp: row_roles_def split: if_splits)

lemma formatLine_ne:
  assumes "formatLine line hl = Inr h"
  shows "h \<noteq> []"
proof -
  obtain rows hs where rows: "format_rows line hl = Inr rows"
    and hs: "map_err (render_row hl) rows = Inr hs" and h: "h = concat hs"
    using assms by (auto simp: formatLine_def split: sum.splits)
  obtain r rs where "rows = r # rs" using format_rows_ne [OF rows] by (cases rows) auto
  with hs obtain x xs where "hs = x # xs" and "render_row hl r = Inr x"
    by (auto simp: map_err_Inr_iff list_all2_Cons1 simp del: map_err.simps)
  with h show ?thesis by (auto dest: render_row_ne)
qed

lemma render_rows_Inl_iff:
  "(\<exists>e. map_err (render_row hl) rows = Inl e) \<longleftrightarrow> (\<exists>r\<in>set rows. dr_en r = None)"
proof -
  have "(\<exists>e. render_row hl r = Inl e) \<longleftrightarrow> dr_en r = None" for r
    by (auto simp: render_row_def split: option.splits)
  then show ?thesis by (simp add: map_err_Inl_iff)
qed

lemma formatLine_TypeError_iff:
  "formatLine line hl = Inl TypeError \<longleftrightarrow>
   (case format_rows line hl of Inl e \<Rightarrow> True | Inr rows \<Rightarrow> \<exists>r\<in>set rows. dr_en r = None)"
proof (cases "format_rows line hl")
  case (Inl e)
  then show ?thesis using js_error.exhaust [of e] by (simp add: formatLine_def)
next
  case (Inr rows)
  have "formatLine line hl = Inl TypeError \<longleftrightarrow> (\<exists>e. map_err (render_row hl) rows = Inl e)"
    using Inr js_error_TypeError [of "map_err (render_row hl) rows"]
    by (auto simp: formatLine_def split: sum.splits)
  with Inr show ?thesis by (simp add: render_rows_Inl_iff)
qed

subsection \<open>The highlight after the markup\<close>

lemma set_esc_amp: "set (esc_amp s) \<subseteq> set s \<union> set (js_lit ''&amp;'')"
  by (auto simp: esc_amp_def split: if_splits)

lemma esc_amp_append [simp]: "esc_amp (s @ t) = esc_amp s @ esc_amp t"
  by (simp add: esc_amp_def)

lemma esc_amp_Cons [simp]: "c \<noteq> u_amp \<Longrightarrow> esc_amp (c # s) = c # esc_amp s"
  by (simp add: esc_amp_def)

lemma wrap_angle_tag:
  assumes "u_lt \<notin> set b" and "u_gt \<notin> set b"
  shows "wrap_angle (u_lt # b @ u_gt # c) = js_lit ''<small>&lt;'' @ b @ js_lit ''&gt;</small>'' @ wrap_angle c"
proof -
  have "\<forall>x\<in>set b. x \<noteq> u_lt \<and> x \<noteq> u_gt" using assms by auto
  then have "takeWhile (\<lambda>x. x \<noteq> u_lt \<and> x \<noteq> u_gt) (b @ u_gt # c) = b"
    by (simp add: takeWhile_append2)
  then show ?thesis by (simp add: wrap_angle.simps)
qed

lemma small_match:
  "re_exec (the (makeRE (js_lit ''small'') default_options)) (js_lit ''<small>&lt;'' @ x) = Some (1, 6)"
  by (simp add: query_eval rx_eval upt_conv_Cons nth_append del: upt_Suc)

subsection \<open>Properties of the formatter\<close>

text \<open>
  C11: the rows of a line. The first row is the line's first pair of sub-entries; when it
  matches the highlight the line is closed and shows every pair, otherwise it is open and
  shows, after the first, exactly the pairs that match, in order. The first row is the
  only line or the main line, all other rows are sub-lines, and all rows share the
  open/closed class.
\<close>

theorem format_rows_shape:
  "format_rows line hl = Inr rows \<Longrightarrow>
   \<exists>ps. line_pairs line = Inr ps \<and> ps \<noteq> [] \<and>
     map (\<lambda>r. (dr_de r, dr_en r)) rows =
       (if pair_matches hl (hd ps) then ps else hd ps # filter (pair_matches hl) (tl ps)) \<and>
     (\<forall>r\<in>set rows. dr_open r \<longleftrightarrow> \<not> pair_matches hl (hd ps)) \<and>
     map dr_role rows =
       (if length rows = 1 then [OnlyLine] else MainLine # replicate (length rows - 1) SubLine)"
proof -
  assume "format_rows line hl = Inr rows"
  then obtain ps where ps: "line_pairs line = Inr ps" "ps \<noteq> []"
    and rows: "rows = row_roles (\<not> pair_matches hl (hd ps))
             (if pair_matches hl (hd ps) then ps else hd ps # filter (pair_matches hl) (tl ps))"
    by (blast dest: format_rows_Inr)
  let ?kept = "if pair_matches hl (hd ps) then ps else hd ps # filter (pair_matches hl) (tl ps)"
  have sh: "map (\<lambda>r. (dr_de r, dr_en r)) rows = ?kept"
    "map dr_open rows = replicate (length ?kept) (\<not> pair_matches hl (hd ps))"
    "map dr_role rows = (if length ?kept = 1 then [OnlyLine] else MainLine # replicate (length ?kept - 1) SubLine)"
    using row_roles_shape [of "\<not> pair_matches hl (hd ps)" ?kept] ps(2) unfolding rows by auto
  have len: "length rows = length ?kept" using arg_cong [OF sh(1), of length] by simp
  have "\<forall>r\<in>set rows. dr_open r \<longleftrightarrow> \<not> pair_matches hl (hd ps)"
    using sh(2) by (metis in_set_replicate image_eqI list.set_map)
  with ps sh(1) sh(3) len show ?thesis by auto
qed

text \<open>
  C12: a line whose German side has more sub-entries than its English side throws whenever
  its main entry matches: the line is closed, the row of the first German sub-entry without
  partner is shown, and \<^verbatim>\<open>formatEntry(undefined)\<close> calls \<^verbatim>\<open>replace\<close> on
  \<^verbatim>\<open>undefined\<close>.
\<close>

theorem formatLine_missing_partner:
  assumes "2 \<le> length (js_split (js_lit '' :: '') line)"
    and "length (js_split (js_lit '' | '') (js_split (js_lit '' :: '') line ! 1)) <
         length (js_split (js_lit '' | '') (js_split (js_lit '' :: '') line ! 0))"
    and "contains (hd (js_split (js_lit '' | '') (js_split (js_lit '' :: '') line ! 0))) hl"
  shows "formatLine line hl = Inl TypeError"
proof -
  let ?de = "js_split (js_lit '' | '') (js_split (js_lit '' :: '') line ! 0)"
  let ?en = "js_split (js_lit '' | '') (js_split (js_lit '' :: '') line ! 1)"
  obtain ps where ps: "line_pairs line = Inr ps" using line_pairs_ok [OF assms(1)] by blast
  then have ne: "ps \<noteq> []" and pse: "ps = map (\<lambda>i. (?de ! i, js_nth ?en i)) [0..<length ?de]"
    by (auto dest: line_pairs_Inr)
  have "?de \<noteq> []" by (simp add: str_simps)
  then have "fst (hd ps) = hd ?de" by (simp add: pse hd_map hd_conv_nth)
  then have m: "pair_matches hl (hd ps)" using assms(3) by (simp add: pair_matches_def)
  have rows: "format_rows line hl = Inr (row_roles False ps)"
    using ps ne m by (simp add: format_rows_def select_pairs_eq)
  let ?k = "length ?en"
  have k: "?k < length ps" using assms(2) pse by simp
  have "row_roles False ps ! ?k = \<lparr>dr_de = fst (ps ! ?k), dr_en = snd (ps ! ?k), dr_role = SubLine, dr_open = False\<rparr>"
    using k by (simp add: row_roles_def str_simps)
  moreover have "snd (ps ! ?k) = None"
    using assms(2) by (subst pse) simp
  ultimately have "dr_en (row_roles False ps ! ?k) = None" by simp
  moreover have "row_roles False ps ! ?k \<in> set (row_roles False ps)"
    using k by (intro nth_mem) (simp add: row_roles_def)
  ultimately have "\<exists>r\<in>set (row_roles False ps). dr_en r = None" by blast
  with rows show ?thesis by (simp add: formatLine_TypeError_iff)
qed
text \<open>
  C24: a line with a \<^verbatim>\<open> :: \<close> separator whose English side has at least as many
  sub-entries as its German side always renders, to non-empty HTML.
\<close>

theorem formatLine_aligned:
  assumes "2 \<le> length (js_split (js_lit '' :: '') line)"
    and "length (js_split (js_lit '' | '') (js_split (js_lit '' :: '') line ! 0)) \<le>
         length (js_split (js_lit '' | '') (js_split (js_lit '' :: '') line ! 1))"
  shows "\<exists>h. formatLine line hl = Inr h \<and> h \<noteq> []"
proof -
  let ?de = "js_split (js_lit '' | '') (js_split (js_lit '' :: '') line ! 0)"
  let ?en = "js_split (js_lit '' | '') (js_split (js_lit '' :: '') line ! 1)"
  obtain ps where ps: "line_pairs line = Inr ps" using line_pairs_ok [OF assms(1)] by blast
  then have pse: "ps = map (\<lambda>i. (?de ! i, js_nth ?en i)) [0..<length ?de]"
    by (auto dest: line_pairs_Inr)
  have some: "snd p \<noteq> None" if "p \<in> set ps" for p
    using that assms(2) by (auto simp: pse)
  obtain rows where rows: "format_rows line hl = Inr rows"
    by (simp add: format_rows_def ps split_def Let_def)
  then obtain ps' where "line_pairs line = Inr ps'" and
    rr: "rows = row_roles (\<not> pair_matches hl (hd ps'))
             (if pair_matches hl (hd ps') then ps' else hd ps' # filter (pair_matches hl) (tl ps'))"
    and "ps' \<noteq> []"
    by (blast dest: format_rows_Inr)
  with ps have "ps' = ps" by simp
  have "set (map (\<lambda>r. (dr_de r, dr_en r)) rows) \<subseteq> set ps"
    using row_roles_shape rr \<open>ps' = ps\<close> \<open>ps' \<noteq> []\<close>
    by (auto dest: list.set_sel(2) simp: list.set_sel(1))
  then have "\<forall>r\<in>set rows. dr_en r \<noteq> None" using some by fastforce
  with rows have "formatLine line hl \<noteq> Inl TypeError"
    by (simp add: formatLine_TypeError_iff)
  then obtain h where "formatLine line hl = Inr h"
    using js_error_TypeError [of "formatLine line hl"] by (cases "formatLine line hl") auto
  then show ?thesis using formatLine_ne by blast
qed

text \<open>
  C36: the highlight of line 71 runs on the text after lines 68--70 inserted their markup,
  so a query that is a word of that markup is highlighted inside a tag: for every entry
  that opens with an annotation \<^verbatim>\<open><...>\<close>, the query \<^verbatim>\<open>small\<close> puts its
  \<^verbatim>\<open><mark>\<close> element inside the \<^verbatim>\<open><small>\<close> tag name that line 69 wrote, and
  the rest of the entry keeps the markup of lines 68--70 unhighlighted.
\<close>

theorem formatEntry_marks_inside_tag:
  assumes "u_lt \<notin> set b" and "u_gt \<notin> set b"
  shows "formatEntry (u_lt # b @ u_gt # c) (the (makeRE (js_lit ''small'') default_options)) =
     js_lit ''<<mark>small</mark>>&lt;'' @ wrap_optional (esc_amp b @ js_lit ''&gt;</small>'' @ wrap_angle (esc_amp c))"
proof -
  have "u_lt \<notin> set (esc_amp b)" "u_gt \<notin> set (esc_amp b)"
    using assms set_esc_amp [of b] by (auto simp: js_lit_def)
  moreover have "esc_amp (u_lt # b @ u_gt # c) = u_lt # esc_amp b @ u_gt # esc_amp c" by simp
  ultimately have w: "wrap_angle (esc_amp (u_lt # b @ u_gt # c)) =
      js_lit ''<small>&lt;'' @ esc_amp b @ js_lit ''&gt;</small>'' @ wrap_angle (esc_amp c)"
    using wrap_angle_tag by presburger
  have o: "wrap_optional (js_lit ''<small>&lt;'' @ x) = js_lit ''<small>&lt;'' @ wrap_optional x" for x
    by (simp add: js_lit_def bracket_close_def)
  show ?thesis
    unfolding formatEntry_def w o re_replace_first_def small_match by (simp add: mark_def js_lit_def)
qed

theorem format_rows_shape_witness:
  "format_rows (js_lit ''Hof | Bauernhaus | Haus :: yard | farmhouse | house'') haus_re =
     Inr [\<lparr>dr_de = js_lit ''Hof'', dr_en = Some (js_lit ''yard''), dr_role = MainLine, dr_open = True\<rparr>,
          \<lparr>dr_de = js_lit ''Haus'', dr_en = Some (js_lit ''house''), dr_role = SubLine, dr_open = True\<rparr>] \<and>
   (\<exists>ps. line_pairs (js_lit ''Hof | Bauernhaus | Haus :: yard | farmhouse | house'') = Inr ps \<and>
     \<not> pair_matches haus_re (hd ps) \<and>
     [(js_lit ''Hof'', Some (js_lit ''yard'')), (js_lit ''Haus'', Some (js_lit ''house''))] =
       hd ps # filter (pair_matches haus_re) (tl ps))"
proof -
  let ?l = "js_lit ''Hof | Bauernhaus | Haus :: yard | farmhouse | house''"
  let ?rows = "[\<lparr>dr_de = js_lit ''Hof'', dr_en = Some (js_lit ''yard''), dr_role = MainLine, dr_open = True\<rparr>,
          \<lparr>dr_de = js_lit ''Haus'', dr_en = Some (js_lit ''house''), dr_role = SubLine, dr_open = True\<rparr>]"
  have r: "format_rows ?l haus_re = Inr ?rows"
    by (simp add: line_eval query_eval rx_eval)
  from format_rows_shape [OF r] r show ?thesis by (auto split: if_splits)
qed

theorem formatLine_missing_partner_witness:
  "formatLine (js_lit ''Haus | Hof :: house'') haus_re = Inl TypeError"
proof -
  let ?l = "js_lit ''Haus | Hof :: house''"
  have "2 \<le> length (js_split (js_lit '' :: '') ?l) \<and>
    length (js_split (js_lit '' | '') (js_split (js_lit '' :: '') ?l ! 1)) <
      length (js_split (js_lit '' | '') (js_split (js_lit '' :: '') ?l ! 0)) \<and>
    contains (hd (js_split (js_lit '' | '') (js_split (js_lit '' :: '') ?l ! 0))) haus_re"
    by (simp add: line_eval query_eval rx_eval)
  then show ?thesis using formatLine_missing_partner [of ?l haus_re] by blast
qed

theorem formatLine_aligned_witness:
  "\<exists>h. formatLine (js_lit ''Haus | Hof :: house | yard'') haus_re = Inr h \<and> h \<noteq> []"
proof -
  let ?l = "js_lit ''Haus | Hof :: house | yard''"
  have "2 \<le> length (js_split (js_lit '' :: '') ?l) \<and>
    length (js_split (js_lit '' | '') (js_split (js_lit '' :: '') ?l ! 0)) \<le>
      length (js_split (js_lit '' | '') (js_split (js_lit '' :: '') ?l ! 1))"
    by (simp add: line_eval rx_eval)
  then show ?thesis using formatLine_aligned [of ?l haus_re] by blast
qed

theorem formatEntry_marks_inside_tag_witness:
  "formatEntry (js_lit ''<adj.> klein'') (the (makeRE (js_lit ''small'') default_options)) =
   js_lit ''<<mark>small</mark>>&lt;adj.&gt;</small> klein''"
proof -
  have e: "js_lit ''<adj.> klein'' = u_lt # js_lit ''adj.'' @ u_gt # js_lit '' klein''"
    by (simp add: js_lit_def)
  have "u_lt \<notin> set (js_lit ''adj.'')" "u_gt \<notin> set (js_lit ''adj.'')" by (simp_all add: js_lit_def)
  from formatEntry_marks_inside_tag [OF this, of "js_lit '' klein''"]
  have "formatEntry (js_lit ''<adj.> klein'') (the (makeRE (js_lit ''small'') default_options)) =
     js_lit ''<<mark>small</mark>>&lt;'' @ wrap_optional (esc_amp (js_lit ''adj.'') @ js_lit ''&gt;</small>'' @
       wrap_angle (esc_amp (js_lit '' klein'')))"
    unfolding e .
  also have "\<dots> = js_lit ''<<mark>small</mark>>&lt;adj.&gt;</small> klein''"
    by (simp add: js_lit_def esc_amp_def wrap_optional.simps bracket_close_def)
  finally show ?thesis .
qed

end
