(* ===== verification/Ranker.thy ===== *)
theory Ranker
  imports Scorer Formatter
begin

text \<open>
  The ranker and the result page: \<^verbatim>\<open>formatResult\<close> (lines 128--154 of
  \<^verbatim>\<open>src/res/deng.js\<close>) and \<^verbatim>\<open>showResults\<close> (lines 201--207). The corpus is filtered
  with \<^verbatim>\<open>contains\<close>, each kept entry becomes \<^verbatim>\<open>[entry, weight, i]\<close> with \<open>i\<close> its
  position among the kept entries, the triples are sorted with the comparator
  \<^verbatim>\<open>(b[1] - a[1]) || (a[2] - b[2])\<close>, cut to \<^verbatim>\<open>options.max\<close>, and rendered with
  \<^verbatim>\<open>formatLine\<close>. \<^verbatim>\<open>Array.prototype.sort\<close> leaves the algorithm to the engine; for
  a consistent comparator its result is the permutation the comparator orders. Here the
  comparator is a strict total order on triples with distinct indices, so that
  permutation is unique, and the model computes it with \<open>sort_key\<close> on the key
  \<open>(- weight, index)\<close>; \<open>sort_key_is_js_sort\<close> proves that any permutation the
  comparator orders is this one. The page state of \<^verbatim>\<open>showResults\<close> is the content of the
  result area.
\<close>

type_synonym ranked = "jstring \<times> nat \<times> nat"

definition rk_entry :: "ranked \<Rightarrow> jstring" where "rk_entry r = fst r"
definition rk_weight :: "ranked \<Rightarrow> nat" where "rk_weight r = fst (snd r)"
definition rk_index :: "ranked \<Rightarrow> nat" where "rk_index r = snd (snd r)"

text \<open>Lines 134--136: \<^verbatim>\<open>result.map((entry, i) => [entry, getWeight(entry, search), i])\<close>.\<close>

definition weigh :: "regexp \<Rightarrow> jstring list \<Rightarrow> js_error + ranked list" where
  "weigh search es =
     map_err (\<lambda>(e, i). case getWeight e search of Inl err \<Rightarrow> Inl err | Inr w \<Rightarrow> Inr (e, w, i))
       (zip es [0..<length es])"

text \<open>The comparator of line 138, as the number it returns.\<close>

definition js_cmp :: "ranked \<Rightarrow> ranked \<Rightarrow> int" where
  "js_cmp a b =
     (let d = int (rk_weight b) - int (rk_weight a)
      in if d \<noteq> 0 then d else int (rk_index a) - int (rk_index b))"

definition rank_key :: "ranked \<Rightarrow> int \<times> nat" where
  "rank_key r = (- int (rk_weight r), rk_index r)"

text \<open>Lines 129--147: the entries shown, and whether more were found than shown.\<close>

definition rank_result :: "jstring list \<Rightarrow> regexp \<Rightarrow> nat \<Rightarrow> js_error + jstring list \<times> bool" where
  "rank_result entries search limit =
     (let kept = filter (\<lambda>e. contains e search) entries in
      case weigh search kept of
        Inl err \<Rightarrow> Inl err
      | Inr ws \<Rightarrow>
          (let res = map rk_entry (sort_key rank_key ws)
           in Inr (if limit < length res then (take limit res, True) else (res, False))))"

text \<open>Lines 148--153.\<close>

definition formatResult :: "jstring list \<Rightarrow> regexp \<Rightarrow> options \<Rightarrow> js_error + jstring" where
  "formatResult entries search opts =
     (case rank_result entries search (opt_max opts) of
        Inl err \<Rightarrow> Inl err
      | Inr (res, has_more) \<Rightarrow>
          (case map_err (\<lambda>e. formatLine e search) res of
             Inl err \<Rightarrow> Inl err
           | Inr hs \<Rightarrow>
               (let r = concat hs in
                Inr (if r \<noteq> []
                     then js_lit ''<table>'' @ r @ js_lit ''</table>'' @
                          (if has_more then js_lit ''<p>More results available</p>'' else [])
                     else js_lit ''<p>No result</p>''))))"

text \<open>
  \<^verbatim>\<open>showResults\<close> (lines 201--207): the new content of the result area, or the old one
  when \<^verbatim>\<open>makeRE\<close> rejects the query (scrolling is not modelled).
\<close>

definition showResults :: "jstring list \<Rightarrow> jstring \<Rightarrow> jstring \<Rightarrow> options \<Rightarrow> js_error + jstring" where
  "showResults entries search area opts =
     (case makeRE search opts of
        None \<Rightarrow> Inr area
      | Some re \<Rightarrow> formatResult entries re opts)"

text \<open>
  A corpus for the examples below: four of its five lines match \<^verbatim>\<open>haus\<close>, with
  weights 8, 4, 6 and 4.
\<close>

abbreviation haus_corpus :: "jstring list" where
  "haus_corpus \<equiv> [js_lit ''Haus :: house'', js_lit ''Baum :: tree'', js_lit ''das Haus :: the house'',
     js_lit ''Haus und Hof :: house and home'', js_lit ''im Haus :: at home'']"

subsection \<open>The weighed list\<close>

lemma weigh_Inr:
  assumes "weigh search es = Inr ws"
  shows "length ws = length es \<and>
         (\<forall>k<length es. \<exists>w. getWeight (es ! k) search = Inr w \<and> ws ! k = (es ! k, w, k))"
proof -
  from assms have l: "list_all2 (\<lambda>x y. (case getWeight (fst x) search of Inl err \<Rightarrow> Inl err
      | Inr w \<Rightarrow> Inr (fst x, w, snd x)) = Inr y) (zip es [0..<length es]) ws"
    by (simp add: weigh_def map_err_Inr_iff split_def)
  then have len: "length ws = length es" by (simp add: list_all2_conv_all_nth)
  have all: "(case getWeight (es ! k) search of Inl err \<Rightarrow> Inl err
      | Inr w \<Rightarrow> Inr (es ! k, w, k)) = Inr (ws ! k)" if "k < length es" for k
  proof -
    have z: "zip es [0..<length es] ! k = (es ! k, k)" using that by simp
    have "k < length (zip es [0..<length es])" using that by simp
    from list_all2_nthD [OF l this] show ?thesis by (simp only: z fst_conv snd_conv)
  qed
  have "\<exists>w. getWeight (es ! k) search = Inr w \<and> ws ! k = (es ! k, w, k)" if "k < length es" for k
    using all [OF that] by (cases "getWeight (es ! k) search") auto
  with len show ?thesis by blast
qed

lemma weigh_indices:
  assumes "weigh search es = Inr ws"
  shows "map rk_index ws = [0..<length es]"
proof (rule nth_equalityI)
  from weigh_Inr [OF assms] show "length (map rk_index ws) = length [0..<length es]" by simp
  fix i
  assume "i < length (map rk_index ws)"
  with weigh_Inr [OF assms] show "map rk_index ws ! i = [0..<length es] ! i"
    by (auto simp: rk_index_def)
qed

lemma weigh_members:
  "weigh search es = Inr ws \<Longrightarrow> r \<in> set ws \<Longrightarrow>
   rk_index r < length es \<and> es ! rk_index r = rk_entry r \<and> getWeight (rk_entry r) search = Inr (rk_weight r)"
  by (drule weigh_Inr) (auto simp: in_set_conv_nth rk_entry_def rk_weight_def rk_index_def)

lemma weigh_Inl_iff:
  "(\<exists>err. weigh search es = Inl err) \<longleftrightarrow> (\<exists>e\<in>set es. \<exists>err. getWeight e search = Inl err)"
proof -
  let ?g = "\<lambda>x. case getWeight (fst x) search of Inl err \<Rightarrow> Inl err | Inr w \<Rightarrow> Inr (fst x, w, snd x)"
  have g: "(\<exists>err. ?g x = Inl err) \<longleftrightarrow> (\<exists>err. getWeight (fst x) search = Inl err)" for x
    by (cases "getWeight (fst x) search") auto
  have fz: "fst ` set (zip es [0..<length es]) = set es"
    by (metis length_upt minus_nat.diff_0 map_fst_zip set_map)
  have "(\<exists>x\<in>set (zip es [0..<length es]). \<exists>err. ?g x = Inl err) \<longleftrightarrow>
        (\<exists>e\<in>fst ` set (zip es [0..<length es]). \<exists>err. getWeight e search = Inl err)"
    unfolding g by blast
  then have "(\<exists>x\<in>set (zip es [0..<length es]). \<exists>err. ?g x = Inl err) \<longleftrightarrow>
        (\<exists>e\<in>set es. \<exists>err. getWeight e search = Inl err)"
    by (simp only: fz)
  then show ?thesis by (simp add: weigh_def map_err_Inl_iff split_def)
qed

lemma js_cmp_neg_iff: "js_cmp a b < 0 \<longleftrightarrow> rank_key a < rank_key b"
  by (auto simp: js_cmp_def rank_key_def Let_def less_prod_def)

lemma rank_key_less_iff:
  "rank_key a < rank_key b \<longleftrightarrow>
   rk_weight b < rk_weight a \<or> (rk_weight a = rk_weight b \<and> rk_index a < rk_index b)"
  by (auto simp: rank_key_def less_prod_def)

lemma rank_key_inj: "distinct (map rk_index ws) \<Longrightarrow> inj_on rank_key (set ws)"
  by (auto simp: inj_on_def rank_key_def distinct_map)

lemma sort_rank_strict:
  assumes "distinct (map rk_index ws)"
  shows "sorted_wrt (\<lambda>a b. rank_key a < rank_key b) (sort_key rank_key ws)"
proof -
  have "distinct (sort_key rank_key ws)" using assms by (simp add: distinct_map)
  moreover have "inj_on rank_key (set (sort_key rank_key ws))" using rank_key_inj [OF assms] by simp
  ultimately have "distinct (map rank_key (sort_key rank_key ws))" by (simp add: distinct_map)
  then have "sorted_wrt (<) (map rank_key (sort_key rank_key ws))"
    by (simp add: strict_sorted_iff)
  then show ?thesis by (simp add: sorted_wrt_map)
qed

lemma rank_result_Inr:
  assumes "rank_result entries search limit = Inr (res, has_more)"
  defines "kept \<equiv> filter (\<lambda>e. contains e search) entries"
  shows "\<exists>ws. weigh search kept = Inr ws \<and>
    res = take limit (map rk_entry (sort_key rank_key ws)) \<and> (has_more \<longleftrightarrow> limit < length kept)"
proof -
  obtain ws where ws: "weigh search kept = Inr ws"
    using assms by (cases "weigh search kept") (auto simp: rank_result_def Let_def)
  then have "length ws = length kept" by (auto dest: weigh_Inr)
  with ws assms show ?thesis by (auto simp: rank_result_def Let_def split: if_splits)
qed

lemma rank_result_nonempty:
  assumes "rank_result entries search limit = Inr (res, has_more)"
  shows "res = [] \<longleftrightarrow> limit = 0 \<or> (\<forall>e\<in>set entries. \<not> contains e search)"
proof -
  obtain ws where ws: "weigh search (filter (\<lambda>e. contains e search) entries) = Inr ws"
    and res: "res = take limit (map rk_entry (sort_key rank_key ws))"
    using rank_result_Inr [OF assms] by blast
  have "length (sort_key rank_key ws) = length (filter (\<lambda>e. contains e search) entries)"
    using weigh_Inr [OF ws] by simp
  then have "sort_key rank_key ws = [] \<longleftrightarrow> filter (\<lambda>e. contains e search) entries = []"
    by (metis length_0_conv)
  then show ?thesis by (auto simp: res filter_empty_conv)
qed

lemma formatLines_concat_ne:
  "map_err (\<lambda>e. formatLine e search) res = Inr hs \<Longrightarrow> res \<noteq> [] \<Longrightarrow> concat hs \<noteq> []"
  by (cases res) (auto simp: map_err_Inr_iff list_all2_Cons1 dest: formatLine_ne simp del: map_err.simps)

lemma formatResult_max0:
  "opt_max so = 0 \<Longrightarrow>
   formatResult entries re so = Inr (js_lit ''<p>No result</p>'') \<or> (\<exists>e. formatResult entries re so = Inl e)"
  by (auto simp: formatResult_def rank_result_def Let_def split: sum.splits if_splits)

subsection \<open>Properties of the ranking\<close>

text \<open>
  C4: the comparator of line 138 determines the order completely. For weighed triples
  with distinct indices, a permutation of them is ordered by the comparator (every earlier
  triple compares negative against every later one) exactly when it is the list that
  \<open>sort_key rank_key\<close> computes; so every conforming \<^verbatim>\<open>Array.prototype.sort\<close>
  returns the model's list.
\<close>

theorem sort_key_is_js_sort:
  assumes "distinct (map rk_index ws)" and "mset ys = mset ws"
  shows "sorted_wrt (\<lambda>a b. js_cmp a b < 0) ys \<longleftrightarrow> ys = sort_key rank_key ws"
proof
  assume "sorted_wrt (\<lambda>a b. js_cmp a b < 0) ys"
  then have "sorted_wrt (<) (map rank_key ys)" by (simp add: sorted_wrt_map js_cmp_neg_iff)
  then have "sorted (map rank_key ys)" by (rule strict_sorted_imp_sorted)
  with assms show "ys = sort_key rank_key ws"
    by (metis sort_key_inj_key_eq rank_key_inj)
next
  assume "ys = sort_key rank_key ws"
  with sort_rank_strict [OF assms(1)] show "sorted_wrt (\<lambda>a b. js_cmp a b < 0) ys"
    by (simp add: js_cmp_neg_iff)
qed

text \<open>
  C3: the result list of \<^verbatim>\<open>formatResult\<close> is the first \<^verbatim>\<open>options.max\<close>
  entries of a permutation of the kept (matching) entries, each with its weight, ordered
  by weight descending and, among equal weights, by corpus order.
\<close>

theorem rank_result_sorted:
  assumes "rank_result entries search limit = Inr (res, has_more)"
  defines "kept \<equiv> filter (\<lambda>e. contains e search) entries"
  shows "\<exists>rs. res = take limit (map rk_entry rs) \<and> length rs = length kept \<and>
     distinct (map rk_index rs) \<and>
     (\<forall>r\<in>set rs. rk_index r < length kept \<and> kept ! rk_index r = rk_entry r \<and>
                 getWeight (rk_entry r) search = Inr (rk_weight r)) \<and>
     sorted_wrt (\<lambda>a b. rk_weight b < rk_weight a \<or>
                       (rk_weight a = rk_weight b \<and> rk_index a < rk_index b)) rs"
proof -
  obtain ws where ws: "weigh search kept = Inr ws"
    and res: "res = take limit (map rk_entry (sort_key rank_key ws))"
    using rank_result_Inr [OF assms(1)] unfolding kept_def by blast
  have d: "distinct (map rk_index ws)" using weigh_indices [OF ws] by simp
  let ?rs = "sort_key rank_key ws"
  have "distinct (map rk_index ?rs)" using d by (simp add: distinct_map)
  moreover have "\<forall>r\<in>set ?rs. rk_index r < length kept \<and> kept ! rk_index r = rk_entry r \<and>
                 getWeight (rk_entry r) search = Inr (rk_weight r)"
    using weigh_members [OF ws] by simp
  moreover have "sorted_wrt (\<lambda>a b. rk_weight b < rk_weight a \<or>
                       (rk_weight a = rk_weight b \<and> rk_index a < rk_index b)) ?rs"
    using sort_rank_strict [OF d] by (simp add: rank_key_less_iff)
  moreover have "length ?rs = length kept" using weigh_Inr [OF ws] by simp
  ultimately show ?thesis using res by blast
qed

text \<open>
  C10: the page shows \<open>min max n\<close> entries for \<open>n\<close> matching entries, and
  announces more results exactly when \<open>n\<close> exceeds \<^verbatim>\<open>options.max\<close>.
\<close>

theorem rank_result_truncation:
  assumes "rank_result entries search limit = Inr (res, has_more)"
  shows "length res = min limit (length (filter (\<lambda>e. contains e search) entries)) \<and>
         (has_more \<longleftrightarrow> limit < length (filter (\<lambda>e. contains e search) entries))"
proof -
  obtain ws where ws: "weigh search (filter (\<lambda>e. contains e search) entries) = Inr ws"
    and "res = take limit (map rk_entry (sort_key rank_key ws))"
    and "has_more \<longleftrightarrow> limit < length (filter (\<lambda>e. contains e search) entries)"
    using rank_result_Inr [OF assms] by blast
  moreover have "length ws = length (filter (\<lambda>e. contains e search) entries)"
    using weigh_Inr [OF ws] by simp
  ultimately show ?thesis by simp
qed

text \<open>
  C8: ranking throws exactly when some matching entry makes \<^verbatim>\<open>getWeight\<close> throw;
  an entry that does not match is never weighed.
\<close>

theorem rank_result_TypeError_iff:
  "rank_result entries search limit = Inl TypeError \<longleftrightarrow>
   (\<exists>e\<in>set entries. contains e search \<and> getWeight e search = Inl TypeError)"
proof -
  have "rank_result entries search limit = Inl TypeError \<longleftrightarrow>
        (\<exists>err. weigh search (filter (\<lambda>e. contains e search) entries) = Inl err)"
    by (cases "weigh search (filter (\<lambda>e. contains e search) entries)")
       (auto simp: rank_result_def Let_def js_error.exhaust [of _ "x = TypeError" for x] elim: js_error.exhaust)
  also have "\<dots> \<longleftrightarrow> (\<exists>e\<in>set entries. contains e search \<and> getWeight e search = Inl TypeError)"
    by (auto simp: weigh_Inl_iff) (metis js_error.exhaust)
  finally show ?thesis .
qed

text \<open>
  C25: with a positive \<^verbatim>\<open>options.max\<close>, the page reads \<^verbatim>\<open>No result\<close> exactly
  when no corpus line matches the search expression: a matching line always renders to a
  non-empty table, or throws.
\<close>

theorem formatResult_no_result_iff:
  assumes "0 < opt_max opts"
  shows "formatResult entries search opts = Inr (js_lit ''<p>No result</p>'') \<longleftrightarrow>
         (\<forall>e\<in>set entries. \<not> contains e search)"
proof
  assume none: "\<forall>e\<in>set entries. \<not> contains e search"
  then have "filter (\<lambda>e. contains e search) entries = []" by (simp add: filter_empty_conv)
  then have "rank_result entries search (opt_max opts) = Inr ([], False)"
    by (simp add: rank_result_def weigh_def)
  then show "formatResult entries search opts = Inr (js_lit ''<p>No result</p>'')"
    by (simp add: formatResult_def)
next
  assume fr: "formatResult entries search opts = Inr (js_lit ''<p>No result</p>'')"
  then obtain res has_more where rr: "rank_result entries search (opt_max opts) = Inr (res, has_more)"
    by (auto simp: formatResult_def split: sum.splits)
  with fr obtain hs where hs: "map_err (\<lambda>e. formatLine e search) res = Inr hs"
    by (auto simp: formatResult_def split: sum.splits)
  have tbl: "js_lit ''<table>'' @ x \<noteq> js_lit ''<p>No result</p>''" for x
    by (simp add: js_lit_def)
  have "concat hs = []"
    using fr rr hs tbl by (auto simp: formatResult_def Let_def split: if_splits)
  then have "res = []" using formatLines_concat_ne [OF hs] by blast
  then show "\<forall>e\<in>set entries. \<not> contains e search"
    using rank_result_nonempty [OF rr] assms by simp
qed

lemma rank_result_haus_corpus:
  "rank_result haus_corpus haus_re 3 =
   Inr ([js_lit ''Haus :: house'', js_lit ''Haus und Hof :: house and home'', js_lit ''das Haus :: the house''], True)"
  by (simp add: rank_result_def weigh_def rank_key_def rk_entry_def rk_weight_def rk_index_def
      score_eval query_eval rx_eval)

theorem sort_key_is_js_sort_witness:
  "sorted_wrt (\<lambda>a b. js_cmp a b < 0) [(js_lit ''b'', 8, 1), (js_lit ''a'', 4, 0), (js_lit ''c'', 4, 2)] \<and>
   [(js_lit ''b'', 8, 1), (js_lit ''a'', 4, 0), (js_lit ''c'', 4, 2)] =
     sort_key rank_key ([(js_lit ''a'', 4, 0), (js_lit ''b'', 8, 1), (js_lit ''c'', 4, 2)] :: ranked list)"
proof -
  let ?ws = "[(js_lit ''a'', 4, 0), (js_lit ''b'', 8, 1), (js_lit ''c'', 4, 2)] :: ranked list"
  let ?ys = "[(js_lit ''b'', 8, 1), (js_lit ''a'', 4, 0), (js_lit ''c'', 4, 2)] :: ranked list"
  have d: "distinct (map rk_index ?ws)" by (simp add: rk_index_def)
  have m: "mset ?ys = mset ?ws" by simp
  have s: "sorted_wrt (\<lambda>a b. js_cmp a b < 0) ?ys"
    by (simp add: js_cmp_def rk_weight_def rk_index_def)
  from sort_key_is_js_sort [OF d m] s show ?thesis by blast
qed

theorem rank_result_sorted_witness:
  "rank_result haus_corpus haus_re 3 =
     Inr ([js_lit ''Haus :: house'', js_lit ''Haus und Hof :: house and home'', js_lit ''das Haus :: the house''], True) \<and>
   (\<exists>rs. [js_lit ''Haus :: house'', js_lit ''Haus und Hof :: house and home'', js_lit ''das Haus :: the house'']
        = take 3 (map rk_entry rs) \<and>
     length rs = length (filter (\<lambda>e. contains e haus_re) haus_corpus) \<and>
     distinct (map rk_index rs) \<and>
     (\<forall>r\<in>set rs. rk_index r < length (filter (\<lambda>e. contains e haus_re) haus_corpus) \<and>
        filter (\<lambda>e. contains e haus_re) haus_corpus ! rk_index r = rk_entry r \<and>
        getWeight (rk_entry r) haus_re = Inr (rk_weight r)) \<and>
     sorted_wrt (\<lambda>a b. rk_weight b < rk_weight a \<or>
                       (rk_weight a = rk_weight b \<and> rk_index a < rk_index b)) rs)"
  using rank_result_haus_corpus rank_result_sorted [OF rank_result_haus_corpus] by blast

theorem rank_result_truncation_witness:
  "rank_result haus_corpus haus_re 3 =
     Inr ([js_lit ''Haus :: house'', js_lit ''Haus und Hof :: house and home'', js_lit ''das Haus :: the house''], True) \<and>
   length [js_lit ''Haus :: house'', js_lit ''Haus und Hof :: house and home'', js_lit ''das Haus :: the house'']
     = min 3 (length (filter (\<lambda>e. contains e haus_re) haus_corpus)) \<and>
   (True \<longleftrightarrow> 3 < length (filter (\<lambda>e. contains e haus_re) haus_corpus))"
  using rank_result_haus_corpus rank_result_truncation [OF rank_result_haus_corpus] by blast

theorem rank_result_TypeError_iff_witness:
  "rank_result (haus_corpus @ [js_lit ''a | haus'']) haus_re 3 = Inl TypeError"
proof -
  have "contains (js_lit ''a | haus'') haus_re \<and> getWeight (js_lit ''a | haus'') haus_re = Inl TypeError"
    by (simp add: score_eval query_eval rx_eval)
  then show ?thesis using rank_result_TypeError_iff [of "haus_corpus @ [js_lit ''a | haus'']" haus_re 3]
    by auto
qed

theorem formatResult_no_result_iff_witness:
  "formatResult haus_corpus (the (makeRE (js_lit ''zebra'') default_options)) default_options =
   Inr (js_lit ''<p>No result</p>'')"
proof -
  have "0 < opt_max default_options \<and>
    (\<forall>e\<in>set haus_corpus. \<not> contains e (the (makeRE (js_lit ''zebra'') default_options)))"
    by (simp add: query_eval rx_eval)
  then show ?thesis using formatResult_no_result_iff [of default_options haus_corpus] by blast
qed

end
