(* ===== verification/Settings.thy ===== *)
theory Settings
  imports Complex_Main Query
begin

text \<open>
  The settings store of \<^verbatim>\<open>src/res/deng.js\<close>: \<^verbatim>\<open>clone\<close> (lines 6--8),
  \<^verbatim>\<open>loadOptions\<close> (10--16), \<^verbatim>\<open>getOptions\<close> (18--20), \<^verbatim>\<open>setOptions\<close> (22--28),
  \<^verbatim>\<open>showConfig\<close> (209--217) and \<^verbatim>\<open>saveConfig\<close> (219--238). The options live in \<^verbatim>\<open>currentOptions\<close> as JavaScript
  values: the three numeric fields hold numbers (finite ones are rationals here, plus
  \<open>NaN\<close> and the two infinities) or, after a JSON round trip, \<^verbatim>\<open>null\<close>, since
  \<^verbatim>\<open>JSON.stringify\<close> writes every non-finite number as \<^verbatim>\<open>null\<close>. The text fields of
  the settings form enter as the numbers \<^verbatim>\<open>Number(...)\<close> made of them; how
  \<^verbatim>\<open>Number\<close> parses text is not modelled. \<open>search_options\<close> reads JavaScript options
  as the options record of the search (\<open>Query.options\<close>): \<^verbatim>\<open>null\<close> is 0 for every use the
  search makes of a number (\<^verbatim>\<open><\<close>, \<^verbatim>\<open>>\<close>, assignment to \<^verbatim>\<open>length\<close>, truth value), and a
  value that is no natural number has no reading.
\<close>

datatype js_num = NaN | PosInf | NegInf | Fin rat

datatype js_val = JNull | JNum js_num

text \<open>Abstract relational comparison \<open>x < y\<close> on numbers; false when either is \<open>NaN\<close>.\<close>

fun js_lt :: "js_num \<Rightarrow> js_num \<Rightarrow> bool" where
  "js_lt (Fin a) (Fin b) = (a < b)"
| "js_lt NegInf y = (y \<noteq> NaN \<and> y \<noteq> NegInf)"
| "js_lt x PosInf = (x \<noteq> NaN \<and> x \<noteq> PosInf)"
| "js_lt x y = False"

definition js_le :: "js_num \<Rightarrow> js_num \<Rightarrow> bool" where
  "js_le x y \<longleftrightarrow> x \<noteq> NaN \<and> y \<noteq> NaN \<and> \<not> js_lt y x"

definition js_isNaN :: "js_num \<Rightarrow> bool" where
  "js_isNaN x \<longleftrightarrow> x = NaN"

text \<open>\<^verbatim>\<open>Math.floor\<close> and strict equality \<^verbatim>\<open>===\<close> on numbers.\<close>

definition js_floor :: "js_num \<Rightarrow> js_num" where
  "js_floor x = (case x of Fin q \<Rightarrow> Fin (of_int (floor q)) | _ \<Rightarrow> x)"

definition js_num_eq :: "js_num \<Rightarrow> js_num \<Rightarrow> bool" where
  "js_num_eq x y \<longleftrightarrow> x \<noteq> NaN \<and> x = y"

record js_options =
  jo_start :: bool
  jo_end :: bool
  jo_ignoreCase :: bool
  jo_max :: js_val
  jo_timeout :: js_val
  jo_min :: js_val

text \<open>Line 15.\<close>

definition default_js_options :: js_options where
  "default_js_options =
     \<lparr>jo_start = False, jo_end = True, jo_ignoreCase = True, jo_max = JNum (Fin 100),
      jo_timeout = JNum (Fin 2000), jo_min = JNum (Fin 3)\<rparr>"

text \<open>Lines 6--8: \<^verbatim>\<open>JSON.parse(JSON.stringify(data))\<close>.\<close>

definition json_val :: "js_val \<Rightarrow> js_val" where
  "json_val v = (case v of JNum (Fin q) \<Rightarrow> JNum (Fin q) | _ \<Rightarrow> JNull)"

definition clone :: "js_options \<Rightarrow> js_options" where
  "clone jo =
     jo\<lparr>jo_max := json_val (jo_max jo), jo_timeout := json_val (jo_timeout jo),
       jo_min := json_val (jo_min jo)\<rparr>"

text \<open>
  The store: \<^verbatim>\<open>currentOptions\<close>, the parsed content of the \<^verbatim>\<open>localStorage\<close> item
  \<^verbatim>\<open>deng-settings\<close> (\<open>None\<close> when it is missing, does not parse or storage cannot be
  read), and whether the browser accepts writes to \<^verbatim>\<open>localStorage\<close> (it throws when
  storage is disabled or full).
\<close>

record store =
  st_current :: js_options
  st_local :: "js_options option"
  st_writable :: bool

text \<open>Lines 10--16: the stored options, or the defaults when there are none.\<close>

definition loadOptions :: "js_options option \<Rightarrow> js_options" where
  "loadOptions stored = (case stored of Some jo \<Rightarrow> jo | None \<Rightarrow> default_js_options)"

definition getOptions :: "store \<Rightarrow> js_options" where
  "getOptions st = clone (st_current st)"

text \<open>
  Lines 22--28: the item holds the JSON text, so reading it back gives the clone; when
  \<^verbatim>\<open>setItem\<close> throws, the \<^verbatim>\<open>catch\<close> of line 26 ignores it and the item keeps
  its old content.
\<close>

definition setOptions :: "js_options \<Rightarrow> store \<Rightarrow> store" where
  "setOptions jo st =
     st\<lparr>st_current := jo, st_local := (if st_writable st then Some (clone jo) else st_local st)\<rparr>"

text \<open>The settings form, its numeric fields as \<^verbatim>\<open>Number(...)\<close> of their text.\<close>

record config_form =
  cf_start :: bool
  cf_end :: bool
  cf_ignoreCase :: bool
  cf_max :: js_num
  cf_timeout :: js_num
  cf_min :: js_num

text \<open>The rejection tests of lines 228--236.\<close>

definition bad_count :: "js_num \<Rightarrow> bool" where
  "bad_count x \<longleftrightarrow> js_isNaN x \<or> js_le x (Fin 0) \<or> \<not> js_num_eq (js_floor x) x"

definition bad_timeout :: "js_num \<Rightarrow> bool" where
  "bad_timeout x \<longleftrightarrow> js_isNaN x \<or> js_lt x (Fin 0) \<or> \<not> js_num_eq (js_floor x) x"

definition saveConfig :: "config_form \<Rightarrow> store \<Rightarrow> store" where
  "saveConfig f st =
     (let old = getOptions st;
          opts = \<lparr>jo_start = cf_start f, jo_end = cf_end f, jo_ignoreCase = cf_ignoreCase f,
                  jo_max = (if bad_count (cf_max f) then jo_max old else JNum (cf_max f)),
                  jo_timeout = (if bad_timeout (cf_timeout f) then jo_timeout old else JNum (cf_timeout f)),
                  jo_min = (if bad_count (cf_min f) then jo_min old else JNum (cf_min f))\<rparr>
      in setOptions opts st)"

text \<open>A JavaScript value as the natural number the search uses; \<^verbatim>\<open>null\<close> counts as 0.\<close>

definition js_nat :: "js_val \<Rightarrow> nat option" where
  "js_nat v =
     (case v of JNull \<Rightarrow> Some 0
      | JNum (Fin q) \<Rightarrow> if 0 \<le> q \<and> of_int (floor q) = q then Some (nat (floor q)) else None
      | JNum _ \<Rightarrow> None)"

definition search_options :: "js_options \<Rightarrow> options option" where
  "search_options jo =
     (case (js_nat (jo_max jo), js_nat (jo_timeout jo), js_nat (jo_min jo)) of
        (Some mx, Some t, Some mn) \<Rightarrow>
          Some \<lparr>opt_start = jo_start jo, opt_end = jo_end jo, opt_ignoreCase = jo_ignoreCase jo,
                opt_max = mx, opt_timeout = t, opt_min = mn\<rparr>
      | _ \<Rightarrow> None)"

text \<open>
  The values \<^verbatim>\<open>saveConfig\<close> lets through: a count is a positive integer or
  \<open>+\<infinity>\<close>, a timeout a non-negative integer or \<open>+\<infinity>\<close>, and \<^verbatim>\<open>null\<close> is what a
  clone leaves of \<open>+\<infinity>\<close>.
\<close>

definition ok_count :: "js_val \<Rightarrow> bool" where
  "ok_count v =
     (case v of JNull \<Rightarrow> True | JNum (Fin q) \<Rightarrow> 0 < q \<and> of_int (floor q) = q
      | JNum PosInf \<Rightarrow> True | JNum _ \<Rightarrow> False)"

definition ok_timeout :: "js_val \<Rightarrow> bool" where
  "ok_timeout v =
     (case v of JNull \<Rightarrow> True | JNum (Fin q) \<Rightarrow> 0 \<le> q \<and> of_int (floor q) = q
      | JNum PosInf \<Rightarrow> True | JNum _ \<Rightarrow> False)"

definition ok_options :: "js_options \<Rightarrow> bool" where
  "ok_options jo \<longleftrightarrow> ok_count (jo_max jo) \<and> ok_timeout (jo_timeout jo) \<and> ok_count (jo_min jo)"

definition ok_store :: "store \<Rightarrow> bool" where
  "ok_store st \<longleftrightarrow> ok_options (st_current st) \<and> (case st_local st of None \<Rightarrow> True | Some jo \<Rightarrow> ok_options jo)"

text \<open>
  Lines 209--217, \<^verbatim>\<open>showConfig\<close>: the form shows the cloned options. A number field
  is written as \<^verbatim>\<open>String(x)\<close>, which \<^verbatim>\<open>Number\<close> reads back as \<open>x\<close>; \<^verbatim>\<open>null\<close>
  is written as the empty text, which \<^verbatim>\<open>Number\<close> reads as 0.
\<close>

definition form_num :: "js_val \<Rightarrow> js_num" where
  "form_num v = (case v of JNull \<Rightarrow> Fin 0 | JNum x \<Rightarrow> x)"

definition showConfig :: "js_options \<Rightarrow> config_form" where
  "showConfig jo =
     \<lparr>cf_start = jo_start jo, cf_end = jo_end jo, cf_ignoreCase = jo_ignoreCase jo,
      cf_max = form_num (jo_max jo), cf_timeout = form_num (jo_timeout jo), cf_min = form_num (jo_min jo)\<rparr>"

subsection \<open>Lemmas on the settings\<close>

lemma bad_count_iff:
  "bad_count x \<longleftrightarrow> \<not> (x = PosInf \<or> (\<exists>q. x = Fin q \<and> 0 < q \<and> of_int (floor q) = q))"
  by (cases x) (auto simp: bad_count_def js_isNaN_def js_le_def js_num_eq_def js_floor_def)

lemma bad_timeout_iff:
  "bad_timeout x \<longleftrightarrow> \<not> (x = PosInf \<or> (\<exists>q. x = Fin q \<and> 0 \<le> q \<and> of_int (floor q) = q))"
  by (cases x) (auto simp: bad_timeout_def js_isNaN_def js_num_eq_def js_floor_def)

lemma ok_count_json: "ok_count v \<Longrightarrow> ok_count (json_val v)"
  by (auto simp: ok_count_def json_val_def split: js_val.splits js_num.splits)

lemma ok_timeout_json: "ok_timeout v \<Longrightarrow> ok_timeout (json_val v)"
  by (auto simp: ok_timeout_def json_val_def split: js_val.splits js_num.splits)

lemma ok_options_clone: "ok_options jo \<Longrightarrow> ok_options (clone jo)"
  by (simp add: ok_options_def clone_def ok_count_json ok_timeout_json)

lemma ok_count_accept: "\<not> bad_count x \<Longrightarrow> ok_count (JNum x)"
  by (auto simp: bad_count_iff ok_count_def)

lemma ok_timeout_accept: "\<not> bad_timeout x \<Longrightarrow> ok_timeout (JNum x)"
  by (auto simp: bad_timeout_iff ok_timeout_def)

lemma js_nat_json_count: "ok_count v \<Longrightarrow> \<exists>n. js_nat (json_val v) = Some n"
  by (auto simp: ok_count_def json_val_def js_nat_def split: js_val.splits js_num.splits)

lemma js_nat_json_timeout: "ok_timeout v \<Longrightarrow> \<exists>n. js_nat (json_val v) = Some n"
  by (auto simp: ok_timeout_def json_val_def js_nat_def split: js_val.splits js_num.splits)

lemma json_val_idem [simp]: "json_val (json_val v) = json_val v"
  by (simp add: json_val_def split: js_val.splits js_num.splits)

lemma count_view:
  assumes "js_nat (json_val v) = Some m"
  shows "js_nat (json_val (if bad_count x then json_val v else JNum x)) =
    Some (case x of Fin q \<Rightarrow> if 0 < q \<and> of_int (floor q) = q then nat (floor q) else m
          | PosInf \<Rightarrow> 0 | _ \<Rightarrow> m)"
proof (cases "bad_count x")
  case True
  then show ?thesis using assms by (cases x) (auto simp: bad_count_iff)
next
  case False
  then show ?thesis by (auto simp: bad_count_iff json_val_def js_nat_def)
qed

lemma timeout_view:
  assumes "js_nat (json_val v) = Some m"
  shows "js_nat (json_val (if bad_timeout x then json_val v else JNum x)) =
    Some (case x of Fin q \<Rightarrow> if 0 \<le> q \<and> of_int (floor q) = q then nat (floor q) else m
          | PosInf \<Rightarrow> 0 | _ \<Rightarrow> m)"
proof (cases "bad_timeout x")
  case True
  then show ?thesis using assms by (cases x) (auto simp: bad_timeout_iff)
next
  case False
  then show ?thesis by (auto simp: bad_timeout_iff json_val_def js_nat_def)
qed

lemma search_options_Some:
  "search_options jo = Some so \<longleftrightarrow>
   js_nat (jo_max jo) = Some (opt_max so) \<and> js_nat (jo_timeout jo) = Some (opt_timeout so) \<and>
   js_nat (jo_min jo) = Some (opt_min so) \<and> opt_start so = jo_start jo \<and> opt_end so = jo_end jo \<and>
   opt_ignoreCase so = jo_ignoreCase jo"
  by (cases so) (auto simp: search_options_def split: option.splits)

lemma saveConfig_fields:
  assumes "search_options (getOptions st) = Some old"
  shows "search_options (getOptions (saveConfig f st)) =
    Some \<lparr>opt_start = cf_start f, opt_end = cf_end f, opt_ignoreCase = cf_ignoreCase f,
      opt_max = (case cf_max f of Fin q \<Rightarrow> if 0 < q \<and> of_int (floor q) = q then nat (floor q) else opt_max old
                  | PosInf \<Rightarrow> 0 | _ \<Rightarrow> opt_max old),
      opt_timeout = (case cf_timeout f of Fin q \<Rightarrow> if 0 \<le> q \<and> of_int (floor q) = q then nat (floor q) else opt_timeout old
                  | PosInf \<Rightarrow> 0 | _ \<Rightarrow> opt_timeout old),
      opt_min = (case cf_min f of Fin q \<Rightarrow> if 0 < q \<and> of_int (floor q) = q then nat (floor q) else opt_min old
                  | PosInf \<Rightarrow> 0 | _ \<Rightarrow> opt_min old)\<rparr>"
proof -
  let ?cur = "st_current st"
  from assms have m: "js_nat (json_val (jo_max ?cur)) = Some (opt_max old)"
    and t: "js_nat (json_val (jo_timeout ?cur)) = Some (opt_timeout old)"
    and n: "js_nat (json_val (jo_min ?cur)) = Some (opt_min old)"
    by (simp_all add: search_options_Some getOptions_def clone_def)
  show ?thesis
    using count_view [OF m, of "cf_max f"] timeout_view [OF t, of "cf_timeout f"]
      count_view [OF n, of "cf_min f"]
    by (simp add: search_options_Some getOptions_def saveConfig_def setOptions_def clone_def Let_def
        cong: if_cong split del: if_split)
qed

lemma form_count_view:
  "js_nat (json_val v) = Some m \<Longrightarrow>
   (case form_num (json_val v) of Fin q \<Rightarrow> if 0 < q \<and> of_int (floor q) = q then nat (floor q) else m
    | PosInf \<Rightarrow> 0 | _ \<Rightarrow> m) = m"
  by (auto simp: form_num_def json_val_def js_nat_def split: js_val.splits js_num.splits if_splits)

lemma form_timeout_view:
  "js_nat (json_val v) = Some m \<Longrightarrow>
   (case form_num (json_val v) of Fin q \<Rightarrow> if 0 \<le> q \<and> of_int (floor q) = q then nat (floor q) else m
    | PosInf \<Rightarrow> 0 | _ \<Rightarrow> m) = m"
  by (auto simp: form_num_def json_val_def js_nat_def split: js_val.splits js_num.splits if_splits)

lemma clone_idem [simp]: "clone (clone jo) = clone jo"
  by (simp add: clone_def)

lemma saveConfig_writable [simp]: "st_writable (saveConfig f st) = st_writable st"
  by (simp add: saveConfig_def setOptions_def Let_def)

lemma saveConfig_local:
  "st_local (saveConfig f st) = (if st_writable st then Some (getOptions (saveConfig f st)) else st_local st)"
  by (simp add: saveConfig_def setOptions_def getOptions_def Let_def)

subsection \<open>Properties of the settings\<close>

lemma saveConfig_ok: "ok_store st \<Longrightarrow> ok_store (saveConfig f st)"
proof -
  assume st: "ok_store st"
  then have old: "ok_options (getOptions st)"
    by (simp add: ok_store_def getOptions_def ok_options_clone)
  let ?opts = "\<lparr>jo_start = cf_start f, jo_end = cf_end f, jo_ignoreCase = cf_ignoreCase f,
                  jo_max = (if bad_count (cf_max f) then jo_max (getOptions st) else JNum (cf_max f)),
                  jo_timeout = (if bad_timeout (cf_timeout f) then jo_timeout (getOptions st) else JNum (cf_timeout f)),
                  jo_min = (if bad_count (cf_min f) then jo_min (getOptions st) else JNum (cf_min f))\<rparr>"
  have "ok_options ?opts"
    using old by (simp add: ok_options_def ok_count_accept ok_timeout_accept)
  then show ?thesis using st
    by (simp add: saveConfig_def setOptions_def ok_store_def ok_options_clone Let_def)
qed

lemma getOptions_readable: "ok_store st \<Longrightarrow> \<exists>so. search_options (getOptions st) = Some so"
proof -
  assume "ok_store st"
  then have "ok_options (st_current st)" by (simp add: ok_store_def)
  then obtain a b c where "js_nat (json_val (jo_max (st_current st))) = Some a"
    "js_nat (json_val (jo_timeout (st_current st))) = Some b"
    "js_nat (json_val (jo_min (st_current st))) = Some c"
    using js_nat_json_count js_nat_json_timeout unfolding ok_options_def by metis
  then show ?thesis by (simp add: search_options_def getOptions_def clone_def)
qed

lemma showConfig_saveConfig:
  assumes "ok_store st"
  shows "search_options (getOptions (saveConfig (showConfig (getOptions st)) st)) = search_options (getOptions st)"
proof -
  obtain old where old: "search_options (getOptions st) = Some old"
    using getOptions_readable [OF assms] by blast
  let ?cur = "st_current st"
  from old have m: "js_nat (json_val (jo_max ?cur)) = Some (opt_max old)"
    and t: "js_nat (json_val (jo_timeout ?cur)) = Some (opt_timeout old)"
    and n: "js_nat (json_val (jo_min ?cur)) = Some (opt_min old)"
    and f: "opt_start old = jo_start ?cur" "opt_end old = jo_end ?cur" "opt_ignoreCase old = jo_ignoreCase ?cur"
    by (simp_all add: search_options_Some getOptions_def clone_def)
  show ?thesis
    using saveConfig_fields [OF old, of "showConfig (getOptions st)"] old
      form_count_view [OF m] form_timeout_view [OF t] form_count_view [OF n] f
    by (simp add: showConfig_def getOptions_def clone_def)
qed

text \<open>
  C20: what saving the form means for the next search: a count field that holds a positive
  integer, or the timeout field a non-negative integer, takes that value; a field holding
  \<open>NaN\<close>, a negative or fractional value or \<open>-\<infinity>\<close> keeps the previous value; and
  a field holding \<open>+\<infinity>\<close> passes the checks of lines 228--236 but reaches the
  search as 0, since \<^verbatim>\<open>getOptions\<close> clones it through JSON as \<^verbatim>\<open>null\<close>.
\<close>

theorem saveConfig_search_view:
  assumes "search_options (getOptions st) = Some old"
  shows "\<exists>so. search_options (getOptions (saveConfig f st)) = Some so \<and>
    opt_start so = cf_start f \<and> opt_end so = cf_end f \<and> opt_ignoreCase so = cf_ignoreCase f \<and>
    opt_max so = (case cf_max f of Fin q \<Rightarrow> if 0 < q \<and> of_int (floor q) = q then nat (floor q) else opt_max old
                  | PosInf \<Rightarrow> 0 | _ \<Rightarrow> opt_max old) \<and>
    opt_timeout so = (case cf_timeout f of Fin q \<Rightarrow> if 0 \<le> q \<and> of_int (floor q) = q then nat (floor q) else opt_timeout old
                  | PosInf \<Rightarrow> 0 | _ \<Rightarrow> opt_timeout old) \<and>
    opt_min so = (case cf_min f of Fin q \<Rightarrow> if 0 < q \<and> of_int (floor q) = q then nat (floor q) else opt_min old
                  | PosInf \<Rightarrow> 0 | _ \<Rightarrow> opt_min old)"
  using saveConfig_fields [OF assms, of f] by simp

abbreviation store0 :: store where
  "store0 \<equiv> \<lparr>st_current = default_js_options, st_local = None, st_writable = True\<rparr>"

theorem saveConfig_search_view_witness:
  "\<exists>so. search_options (getOptions (saveConfig \<lparr>cf_start = False, cf_end = True, cf_ignoreCase = True,
      cf_max = PosInf, cf_timeout = Fin 0, cf_min = Fin (5 / 2)\<rparr> store0)) = Some so \<and>
    opt_max so = 0 \<and> opt_timeout so = 0 \<and> opt_min so = 3"
proof -
  have "search_options (getOptions store0) = Some default_options"
    by (simp add: search_options_def getOptions_def clone_def json_val_def js_nat_def default_js_options_def
        default_options_def)
  from saveConfig_search_view [OF this, of "\<lparr>cf_start = False, cf_end = True, cf_ignoreCase = True,
      cf_max = PosInf, cf_timeout = Fin 0, cf_min = Fin (5 / 2)\<rparr>"]
  moreover have "\<lfloor>5 / 2 :: rat\<rfloor> = 2" by (simp add: floor_eq_iff)
  ultimately show ?thesis by (simp add: default_options_def) blast
qed

end
