(* ===== verification/Corpus.thy ===== *)
theory Corpus
  imports Prelude
begin

text \<open>
  Loading the corpus: \<^verbatim>\<open>getEntries\<close> (lines 193--199 of \<^verbatim>\<open>src/res/deng.js\<close>)
  splits the text of \<^verbatim>\<open>res/de-en.txt\<close> at newlines and keeps the lines that are
  not empty and do not start with \<^verbatim>\<open>#\<close>, and \<^verbatim>\<open>getFile\<close> (lines 183--191)
  issues the request for that file with the XMLHttpRequest calls modelled from the
  standard; the network transfer is I/O, and the page receives the response text as an
  event (theory \<open>Page\<close>).
\<close>

text \<open>
  The part of the XMLHttpRequest Living Standard that \<^verbatim>\<open>getFile\<close> uses (it is a browser
  built-in, not code of the repository): the ready state, the send flag, the request
  method and URL, the override MIME type and whether an \<^verbatim>\<open>onload\<close> handler is set.
  \<^verbatim>\<open>overrideMimeType\<close> throws an \<^verbatim>\<open>InvalidStateError\<close> once the response is loading
  or done, \<^verbatim>\<open>send\<close> throws one unless the request is opened and not yet sent;
  \<^verbatim>\<open>open\<close> with a valid method and URL does not throw.
\<close>

datatype dom_exception = InvalidStateError

datatype ready_state = Unsent | Opened | HeadersReceived | Loading | Done

record xhr =
  xhr_ready :: ready_state
  xhr_send_flag :: bool
  xhr_method :: jstring
  xhr_url :: jstring
  xhr_mime_override :: "jstring option"
  xhr_onload :: bool

definition new_xhr :: xhr where
  "new_xhr = \<lparr>xhr_ready = Unsent, xhr_send_flag = False, xhr_method = [], xhr_url = [],
     xhr_mime_override = None, xhr_onload = False\<rparr>"

definition xhr_set_onload :: "xhr \<Rightarrow> xhr" where
  "xhr_set_onload x = x\<lparr>xhr_onload := True\<rparr>"

definition xhr_open :: "jstring \<Rightarrow> jstring \<Rightarrow> xhr \<Rightarrow> dom_exception + xhr" where
  "xhr_open m u x = Inr (x\<lparr>xhr_ready := Opened, xhr_send_flag := False, xhr_method := m, xhr_url := u\<rparr>)"

definition xhr_overrideMimeType :: "jstring \<Rightarrow> xhr \<Rightarrow> dom_exception + xhr" where
  "xhr_overrideMimeType mt x =
     (if xhr_ready x = Loading \<or> xhr_ready x = Done then Inl InvalidStateError
      else Inr (x\<lparr>xhr_mime_override := Some mt\<rparr>))"

definition xhr_send :: "xhr \<Rightarrow> dom_exception + xhr" where
  "xhr_send x =
     (if xhr_ready x \<noteq> Opened \<or> xhr_send_flag x then Inl InvalidStateError
      else Inr (x\<lparr>xhr_send_flag := True\<rparr>))"

text \<open>
  Lines 183--191, \<^verbatim>\<open>getFile\<close>: a new request gets its \<^verbatim>\<open>onload\<close> handler (the
  callback itself is \<open>Page.on_loaded\<close>), is opened as a \<^verbatim>\<open>GET\<close> of
  \<^verbatim>\<open>res/de-en.txt\<close>, told to read the response as \<^verbatim>\<open>text/plain\<close>, and sent; an
  exception of any call would propagate out of \<^verbatim>\<open>getFile\<close>.
\<close>

definition getFile :: "dom_exception + xhr" where
  "getFile =
     sum_bind (xhr_open (js_lit ''GET'') (js_lit ''res/de-en.txt'') (xhr_set_onload new_xhr)) (\<lambda>x.
     sum_bind (xhr_overrideMimeType (js_lit ''text/plain'') x) xhr_send)"

text \<open>Lines 193--199: the lines of the corpus file that are not empty and not comments.\<close>

definition getEntries :: "jstring \<Rightarrow> jstring list" where
  "getEntries text = filter (\<lambda>l. l \<noteq> [] \<and> hd l \<noteq> u_hash) (js_split [u_nl] text)"

lemmas xhr_eval = getFile_def new_xhr_def xhr_set_onload_def xhr_open_def xhr_overrideMimeType_def
  xhr_send_def

subsection \<open>Properties of the corpus\<close>

text \<open>
  C28: loading the corpus (lines 193--199): for a file that is the lines of a dictionary
  joined by newlines, \<^verbatim>\<open>getEntries\<close> returns exactly its non-empty lines that do
  not start with \<^verbatim>\<open>#\<close>, in file order.
\<close>

theorem getEntries_lines:
  assumes "lines \<noteq> []" and "\<forall>l\<in>set lines. u_nl \<notin> set l"
  shows "getEntries (js_join [u_nl] lines) = filter (\<lambda>l. l \<noteq> [] \<and> hd l \<noteq> u_hash) lines"
  using js_split_join_single [OF assms] by (simp add: getEntries_def)

text \<open>
  C29: every entry the program works on is a single line that is not empty and is not a
  comment, whatever the file holds, as the search and the formatter assume.
\<close>

theorem getEntries_wf:
  "l \<in> set (getEntries text) \<Longrightarrow> l \<noteq> [] \<and> hd l \<noteq> u_hash \<and> u_nl \<notin> set l"
  by (auto simp: getEntries_def dest: js_split_single_pieces)

theorem getEntries_lines_witness:
  "getEntries (js_lit ''# de-en'' @ [u_nl] @ [] @ [u_nl] @ js_lit ''Haus :: house'') = [js_lit ''Haus :: house'']"
proof -
  have "getEntries (js_join [u_nl] [js_lit ''# de-en'', [], js_lit ''Haus :: house'']) = [js_lit ''Haus :: house'']"
    using getEntries_lines [of "[js_lit ''# de-en'', [], js_lit ''Haus :: house'']"] by (simp add: js_lit_def)
  then show ?thesis by simp
qed

theorem getEntries_wf_witness:
  "js_lit ''Haus :: house'' \<noteq> [] \<and> hd (js_lit ''Haus :: house'') \<noteq> u_hash \<and> u_nl \<notin> set (js_lit ''Haus :: house'')"
proof -
  have "js_lit ''Haus :: house'' \<in> set (getEntries (js_lit ''# c'' @ [u_nl] @ [u_nl] @ js_lit ''Haus :: house''))"
    by code_simp
  from getEntries_wf [OF this] show ?thesis .
qed

end
