(* ===== verification/Page.thy ===== *)
theory Page
  imports Ranker Settings Corpus
begin

text \<open>
  The page wiring of \<^verbatim>\<open>init\<close> (lines 240--299 of \<^verbatim>\<open>src/res/deng.js\<close>) as a state
  machine. The state \<open>page\<close> holds the settings store, the corpus once
  \<^verbatim>\<open>getEntries\<close> has delivered it, the text of the input field, the content of the
  result area, the pending debounce timer (the options its callback captured; the
  callback reads the input field when it fires), which page is shown, the fields of the
  settings form, whether the submit button is shown, and the request \<^verbatim>\<open>getFile\<close> sent. Each event is one handler run to completion, as JavaScript's
  event loop runs them: typing (the \<^verbatim>\<open>input\<close> handler), the timer firing, submitting,
  the two buttons, editing the settings form, and the arrival of the corpus. A handler that throws leaves the
  result area as it was, since the assignment to \<^verbatim>\<open>innerHTML\<close> does not happen.
  Before the corpus arrives the \<^verbatim>\<open>input\<close> and \<^verbatim>\<open>submit\<close> handlers are not yet
  registered; the form's default submission is not modelled.
\<close>

record page =
  pg_store :: store
  pg_entries :: "jstring list option"
  pg_input :: jstring
  pg_area :: jstring
  pg_timer :: "js_options option"
  pg_on_settings :: bool
  pg_form :: config_form
  pg_submit_shown :: bool
  pg_xhr :: "xhr option"

datatype event =
    EvType jstring
  | EvTimer
  | EvSubmit
  | EvConfig
  | EvEdit config_form
  | EvBack
  | EvLoaded jstring

text \<open>
  \<^verbatim>\<open>showResults\<close> with JavaScript options: the options as the search reads them; the
  area keeps its content when the search throws.
\<close>

definition page_search :: "jstring list \<Rightarrow> jstring \<Rightarrow> jstring \<Rightarrow> js_options \<Rightarrow> jstring" where
  "page_search entries q area jo =
     (case search_options jo of
        None \<Rightarrow> area
      | Some so \<Rightarrow> (case showResults entries q area so of Inl e \<Rightarrow> area | Inr a \<Rightarrow> a))"

text \<open>JavaScript truth value of a number field (line 275).\<close>

definition js_truthy :: "js_val \<Rightarrow> bool" where
  "js_truthy v = (case v of JNull \<Rightarrow> False | JNum NaN \<Rightarrow> False | JNum (Fin q) \<Rightarrow> q \<noteq> 0 | JNum _ \<Rightarrow> True)"

text \<open>Lines 273--284: the \<^verbatim>\<open>input\<close> handler.\<close>

definition on_input :: "page \<Rightarrow> page" where
  "on_input p =
     (let opts = getOptions (pg_store p);
          p = p\<lparr>pg_submit_shown := pg_input p \<noteq> []\<rparr>
      in if js_truthy (jo_timeout opts) then p\<lparr>pg_timer := Some (opts\<lparr>jo_end := False\<rparr>)\<rparr> else p)"

text \<open>Lines 280--282: the timer callback.\<close>

definition on_timer :: "jstring list \<Rightarrow> page \<Rightarrow> page" where
  "on_timer entries p =
     (case pg_timer p of
        None \<Rightarrow> p
      | Some jo \<Rightarrow> p\<lparr>pg_timer := None, pg_area := page_search entries (pg_input p) (pg_area p) jo\<rparr>)"

text \<open>Lines 285--293: the \<^verbatim>\<open>submit\<close> handler.\<close>

definition on_submit :: "jstring list \<Rightarrow> page \<Rightarrow> page" where
  "on_submit entries p =
     (let opts = (getOptions (pg_store p))\<lparr>jo_min := JNum (Fin 1)\<rparr>
      in p\<lparr>pg_timer := None, pg_area := page_search entries (pg_input p) (pg_area p) opts\<rparr>)"

text \<open>
  Lines 185--187: when the response of the request \<^verbatim>\<open>getFile\<close> sent has arrived, the
  request is done and its send flag unset (XMLHttpRequest standard, end of the response
  body), and \<^verbatim>\<open>xhr.onload\<close> hands the response text to the callback of
  \<^verbatim>\<open>getEntries\<close>, whose callback (line 273) registers the handlers on the entries.
  Without a sent request no response arrives.
\<close>

definition on_loaded :: "jstring \<Rightarrow> page \<Rightarrow> page" where
  "on_loaded text p =
     (case pg_xhr p of
        Some x \<Rightarrow>
          if xhr_send_flag x
          then p\<lparr>pg_xhr := Some (x\<lparr>xhr_ready := Done, xhr_send_flag := False\<rparr>),
                 pg_entries := Some (getEntries text)\<rparr>
          else p
      | None \<Rightarrow> p)"

definition step :: "page \<Rightarrow> event \<Rightarrow> page" where
  "step p ev =
     (case ev of
        EvType s \<Rightarrow>
          (case pg_entries p of None \<Rightarrow> p\<lparr>pg_input := s\<rparr> | Some es \<Rightarrow> on_input (p\<lparr>pg_input := s\<rparr>))
      | EvTimer \<Rightarrow> (case pg_entries p of None \<Rightarrow> p | Some es \<Rightarrow> on_timer es p)
      | EvSubmit \<Rightarrow> (case pg_entries p of None \<Rightarrow> p | Some es \<Rightarrow> on_submit es p)
      | EvConfig \<Rightarrow> p\<lparr>pg_on_settings := True, pg_form := showConfig (getOptions (pg_store p))\<rparr>
      | EvEdit f \<Rightarrow> p\<lparr>pg_form := f\<rparr>
      | EvBack \<Rightarrow> p\<lparr>pg_on_settings := False, pg_store := saveConfig (pg_form p) (pg_store p)\<rparr>
      | EvLoaded text \<Rightarrow> on_loaded text p)"

text \<open>The events that only touch the settings page: the two buttons and editing the form.\<close>

definition settings_event :: "event \<Rightarrow> bool" where
  "settings_event ev = (case ev of EvConfig \<Rightarrow> True | EvEdit f \<Rightarrow> True | EvBack \<Rightarrow> True | _ \<Rightarrow> False)"

text \<open>The request of \<^verbatim>\<open>getFile\<close> is sent and its response has not arrived yet.\<close>

definition xhr_pending :: "page \<Rightarrow> bool" where
  "xhr_pending p = (case pg_xhr p of Some x \<Rightarrow> xhr_send_flag x | None \<Rightarrow> False)"

text \<open>The arrival of the corpus.\<close>

definition is_load :: "event \<Rightarrow> bool" where
  "is_load ev = (case ev of EvLoaded t \<Rightarrow> True | _ \<Rightarrow> False)"

definition run :: "page \<Rightarrow> event list \<Rightarrow> page" where
  "run p evs = foldl step p evs"

text \<open>
  Lines 261--263: the page after \<^verbatim>\<open>init\<close>, before any event: \<open>stored\<close> is what
  \<^verbatim>\<open>localStorage\<close> holds, \<open>writable\<close> whether it accepts writes, \<open>form\<close> the
  fields of the settings form as the HTML sets them.
\<close>

definition init_page :: "js_options option \<Rightarrow> bool \<Rightarrow> config_form \<Rightarrow> jstring \<Rightarrow> jstring \<Rightarrow> page" where
  "init_page stored writable form input area =
     \<lparr>pg_store = \<lparr>st_current = loadOptions stored, st_local = stored, st_writable = writable\<rparr>,
      pg_entries = None,
      pg_input = input, pg_area = area, pg_timer = None, pg_on_settings = False,
      pg_form = form, pg_submit_shown = input \<noteq> [],
      pg_xhr = (case getFile of Inl e \<Rightarrow> None | Inr x \<Rightarrow> Some x)\<rparr>"

inductive reachable :: "page \<Rightarrow> bool" where
  init: "(case stored of None \<Rightarrow> True | Some jo \<Rightarrow> ok_options jo) \<Longrightarrow> reachable (init_page stored writable form input area)"
| step: "reachable p \<Longrightarrow> reachable (step p ev)"

subsection \<open>Lemmas on the page\<close>

lemma rp_search_query_parts: "rp_search (query_parts q o1) = rp_search (query_parts q o2)"
  by (simp add: query_parts_def trailing_space_step_def on_loaded_def leading_star_step_def on_loaded_def trailing_star_step_def on_loaded_def
      initial_parts_def Let_def)

lemma ok_store_step: "ok_store (pg_store p) \<Longrightarrow> ok_store (pg_store (step p ev))"
  by (auto simp: step_def on_loaded_def on_input_def on_timer_def on_submit_def Let_def saveConfig_ok
      split: event.splits option.splits)

lemma search_options_end: "search_options (jo\<lparr>jo_end := b\<rparr>) = map_option (\<lambda>so. so\<lparr>opt_end := b\<rparr>) (search_options jo)"
  by (simp add: search_options_def split: option.splits)

lemma timer_in_store:
  "pg_timer (step p ev) = Some jo \<Longrightarrow>
   pg_timer p = Some jo \<or> (\<exists>st. st = pg_store p \<and> jo = (getOptions st)\<lparr>jo_end := False\<rparr>)"
  by (auto simp: step_def on_loaded_def on_input_def on_timer_def on_submit_def Let_def
      split: event.splits option.splits if_splits)

lemma reachable_ok_store: "reachable p \<Longrightarrow> ok_store (pg_store p)"
proof (induction rule: reachable.induct)
  case (init stored writable form input area)
  then show ?case
    by (auto simp: init_page_def ok_store_def loadOptions_def ok_options_def default_js_options_def
        ok_count_def ok_timeout_def split: option.splits)
next
  case (step p ev)
  from step.IH show ?case by (rule ok_store_step)
qed

lemma run_append: "run p (xs @ ys) = run (run p xs) ys"
  by (simp add: run_def)

lemma run_typing:
  assumes "pg_entries p = Some es" and "js_truthy (jo_timeout (getOptions (pg_store p)))" and "qs \<noteq> []"
  shows "run p (map EvType qs) = p\<lparr>pg_input := last qs, pg_submit_shown := last qs \<noteq> [],
           pg_timer := Some ((getOptions (pg_store p))\<lparr>jo_end := False\<rparr>)\<rparr>"
  using assms
proof (induction qs arbitrary: p rule: rev_induct)
  case Nil
  then show ?case by simp
next
  case (snoc q qs)
  show ?case
  proof (cases "qs = []")
    case True
    with snoc.prems show ?thesis by (simp add: run_def step_def on_loaded_def on_input_def Let_def)
  next
    case False
    with snoc have "run p (map EvType qs) = p\<lparr>pg_input := last qs, pg_submit_shown := last qs \<noteq> [],
           pg_timer := Some ((getOptions (pg_store p))\<lparr>jo_end := False\<rparr>)\<rparr>" by blast
    with snoc.prems show ?thesis by (simp add: run_append) (simp add: run_def step_def on_loaded_def on_input_def Let_def)
  qed
qed

lemma search_options_min1:
  "search_options jo = Some so \<Longrightarrow> search_options (jo\<lparr>jo_min := JNum (Fin 1)\<rparr>) = Some (so\<lparr>opt_min := 1\<rparr>)"
  by (auto simp: search_options_def js_nat_def split: option.splits)

lemma settings_events_keep:
  "list_all settings_event evs \<Longrightarrow>
   pg_entries (run p evs) = pg_entries p \<and> pg_timer (run p evs) = pg_timer p \<and>
   pg_input (run p evs) = pg_input p \<and> pg_area (run p evs) = pg_area p"
  by (induction evs arbitrary: p)
    (auto simp: run_def step_def on_loaded_def settings_event_def split: event.splits)

lemma run_Cons: "run p (ev # evs) = run (step p ev) evs"
  by (simp add: run_def)

lemma step_store: "pg_store (step p ev) = pg_store p \<or> pg_store (step p ev) = saveConfig (pg_form p) (pg_store p)"
  by (auto simp: step_def on_loaded_def on_input_def on_timer_def on_submit_def Let_def
      split: event.splits option.splits)

lemma run_store_invariant:
  assumes "\<And>st f. I st \<Longrightarrow> I (saveConfig f st)" and "I (pg_store p)"
  shows "I (pg_store (run p evs))"
  using assms(2)
proof (induction evs arbitrary: p)
  case Nil
  then show ?case by (simp add: run_def)
next
  case (Cons ev evs)
  have "I (pg_store (step p ev))" using step_store [of p ev] Cons.prems assms(1) by auto
  from Cons.IH [OF this] show ?case unfolding run_Cons .
qed

lemma step_pending:
  "xhr_pending (step p ev) \<longleftrightarrow> xhr_pending p \<and> (\<forall>t. ev \<noteq> EvLoaded t)"
  by (auto simp: xhr_pending_def step_def on_loaded_def on_input_def on_timer_def on_submit_def Let_def
      split: event.splits option.splits)

lemma reachable_pending: "reachable p \<Longrightarrow> xhr_pending p \<longleftrightarrow> pg_entries p = None"
proof (induction rule: reachable.induct)
  case (init stored writable form input area)
  then show ?case by (simp add: xhr_pending_def init_page_def xhr_eval)
next
  case (step p ev)
  then show ?case
    by (auto simp: xhr_pending_def step_def on_loaded_def on_input_def on_timer_def on_submit_def Let_def
        split: event.splits option.splits)
qed



subsection \<open>Properties of the page\<close>

text \<open>
  C13: every reachable page keeps valid settings, and a pending debounce timer always holds
  options the search can read, with the \<^verbatim>\<open>end\<close> option off.
\<close>

theorem page_invariant:
  "reachable p \<Longrightarrow> ok_store (pg_store p) \<and>
     (\<forall>jo. pg_timer p = Some jo \<longrightarrow> \<not> jo_end jo \<and> (\<exists>so. search_options jo = Some so))"
proof (induction rule: reachable.induct)
  case (init stored writable form input area)
  then show ?case
    by (auto simp: init_page_def ok_store_def loadOptions_def ok_options_def default_js_options_def
        ok_count_def ok_timeout_def split: option.splits)
next
  case (step p ev)
  then have ok: "ok_store (pg_store p)" by blast
  have "ok_store (pg_store (step p ev))" using step.hyps by (intro reachable_ok_store reachable.step)
  moreover have "\<not> jo_end jo \<and> (\<exists>so. search_options jo = Some so)" if t: "pg_timer (step p ev) = Some jo" for jo
  proof -
    from timer_in_store [OF t] show ?thesis
    proof
      assume "pg_timer p = Some jo"
      with step show ?thesis by blast
    next
      assume "\<exists>st. st = pg_store p \<and> jo = (getOptions st)\<lparr>jo_end := False\<rparr>"
      then have jo: "jo = (getOptions (pg_store p))\<lparr>jo_end := False\<rparr>" by blast
      obtain so where "search_options (getOptions (pg_store p)) = Some so"
        using getOptions_readable [OF ok] by blast
      then show ?thesis by (simp add: jo search_options_end)
    qed
  qed
  ultimately show ?case by blast
qed

text \<open>
  C14: debouncing: once the corpus is loaded and the timeout is non-zero, any sequence of
  edits of the input field followed by the timer runs exactly one search, for the text
  of the last edit, with the \<^verbatim>\<open>end\<close> option off and the settings of the page.
\<close>

theorem typing_then_timer:
  assumes "pg_entries p = Some es" and "js_truthy (jo_timeout (getOptions (pg_store p)))" and "qs \<noteq> []"
  shows "run p (map EvType qs @ [EvTimer]) =
    p\<lparr>pg_input := last qs, pg_submit_shown := last qs \<noteq> [], pg_timer := None,
      pg_area := page_search es (last qs) (pg_area p) ((getOptions (pg_store p))\<lparr>jo_end := False\<rparr>)\<rparr>"
  using run_typing [OF assms] assms(1)
  by (simp add: run_append) (simp add: run_def step_def on_loaded_def on_timer_def)

text \<open>
  C16: submitting cancels the pending timer and searches with \<^verbatim>\<open>min\<close> set to 1: a query
  whose normalisation leaves any text is never rejected, and the result area shows the
  result page (or keeps its content when the search throws).
\<close>

theorem submit_searches:
  assumes "reachable p" and "pg_entries p = Some es"
    and "rp_search (query_parts (pg_input p) default_options) \<noteq> []"
  shows "\<exists>so re. opt_min so = 1 \<and> makeRE (pg_input p) so = Some re \<and> pg_timer (step p EvSubmit) = None \<and>
     pg_area (step p EvSubmit) = (case formatResult es re so of Inl e \<Rightarrow> pg_area p | Inr a \<Rightarrow> a)"
proof -
  obtain so0 where so0: "search_options (getOptions (pg_store p)) = Some so0"
    using getOptions_readable [OF reachable_ok_store [OF assms(1)]] by blast
  let ?so = "so0\<lparr>opt_min := 1\<rparr>"
  have "rp_search (query_parts (pg_input p) ?so) \<noteq> []"
    using assms(3) rp_search_query_parts by metis
  then obtain re where re: "makeRE (pg_input p) ?so = Some re"
    by (simp add: makeRE_def Let_def Suc_le_eq)
  have "pg_area (step p EvSubmit) = (case formatResult es re ?so of Inl e \<Rightarrow> pg_area p | Inr a \<Rightarrow> a)"
    using assms(2) search_options_min1 [OF so0] re
    by (simp add: step_def on_loaded_def on_submit_def page_search_def showResults_def Let_def split: sum.splits)
  moreover have "pg_timer (step p EvSubmit) = None"
    using assms(2) by (simp add: step_def on_loaded_def on_submit_def Let_def)
  ultimately show ?thesis using re by (intro exI [of _ ?so] exI [of _ re]) simp
qed


text \<open>
  C21: opening the settings and going back without editing the form does not change the
  options a later search reads, on every reachable page.
\<close>

theorem config_back_keeps_options:
  assumes "reachable p"
  shows "search_options (getOptions (pg_store (run p [EvConfig, EvBack]))) =
         search_options (getOptions (pg_store p))"
  using showConfig_saveConfig [OF reachable_ok_store [OF assms]]
  by (simp add: run_def step_def on_loaded_def)

text \<open>
  C15: a pending debounced search is not lost: whatever the user does on the settings page
  meanwhile, the timer still fires the search for the current input, with the options
  captured when the input was typed (settings saved in between do not apply to it).
\<close>

theorem pending_search_survives_settings:
  assumes "pg_entries p = Some es" and "pg_timer p = Some jo" and "list_all settings_event evs"
  shows "pg_timer (run p (evs @ [EvTimer])) = None \<and>
    pg_area (run p (evs @ [EvTimer])) = page_search es (pg_input p) (pg_area p) jo"
  using settings_events_keep [OF assms(3), of p] assms(1,2)
  by (simp add: run_append) (simp add: run_def step_def on_loaded_def on_timer_def)

text \<open>
  C30: on every reachable page, once the corpus has arrived no later event changes it:
  the request of \<^verbatim>\<open>getFile\<close> is then done, so every search of the page runs over the
  entries of the one response delivered.
\<close>

theorem corpus_fixed_once_loaded:
  assumes "reachable p" and "pg_entries p = Some es"
  shows "pg_entries (run p evs) = Some es"
proof -
  have "\<not> xhr_pending p" using reachable_pending [OF assms(1)] assms(2) by simp
  with assms(2) show ?thesis
  proof (induction evs arbitrary: p)
    case Nil
    then show ?case by (simp add: run_def)
  next
    case (Cons ev evs)
    have "\<not> xhr_pending (step p ev) \<and> pg_entries (step p ev) = Some es"
      using Cons.prems step_pending [of p ev]
      by (auto simp: step_def on_loaded_def on_input_def on_timer_def on_submit_def Let_def xhr_pending_def
          split: event.splits option.splits)
    with Cons.IH show ?case by (simp add: run_Cons)
  qed
qed

text \<open>
  C31: before the corpus arrives nothing is searched: whatever the user types, submits or
  changes in the settings, the result area keeps its content (the \<^verbatim>\<open>input\<close> and
  \<^verbatim>\<open>submit\<close> handlers are only registered in the callback of line 273).
\<close>

theorem no_search_before_corpus:
  "pg_entries p = None \<Longrightarrow> \<not> list_ex is_load evs \<Longrightarrow>
   pg_area (run p evs) = pg_area p \<and> pg_entries (run p evs) = None"
  by (induction evs arbitrary: p)
    (auto simp: run_def step_def on_loaded_def is_load_def split: event.splits option.splits)

text \<open>
  C18: what a reload of the page restores: when \<^verbatim>\<open>localStorage\<close> accepts writes, the
  options the page was using, whatever happened before; when it rejects them (the
  \<^verbatim>\<open>catch\<close> of line 26 hides the failure), the options stored before the page was
  loaded, so every setting saved in between is lost.
\<close>

theorem reload_restores_options:
  "getOptions (pg_store (init_page (st_local (pg_store (run (init_page stored w f i a) evs))) w f' i' a')) =
   (if w then getOptions (pg_store (run (init_page stored w f i a) evs))
    else getOptions (pg_store (init_page stored w f i a)))"
proof -
  let ?I = "\<lambda>st. st_writable st = w \<and>
    (if w then clone (loadOptions (st_local st)) = getOptions st else st_local st = stored)"
  have save: "?I (saveConfig f st)" if "?I st" for st f
    using that by (auto simp: saveConfig_local loadOptions_def getOptions_def)
  have "?I (pg_store (init_page stored w f i a))"
    by (simp add: init_page_def getOptions_def)
  then have "?I (pg_store (run (init_page stored w f i a) evs))"
    using run_store_invariant [where I = ?I, OF save] by blast
  then show ?thesis by (simp add: init_page_def getOptions_def split: if_splits)
qed

text \<open>
  C17: a query too short for the search (lines 54--56 return \<^verbatim>\<open>false\<close>) performs no
  search: when the timer fires, the result area keeps what it showed, so a rejected query is
  told apart from one that matches nothing, which shows \<^verbatim>\<open>No result\<close>.
\<close>

theorem short_query_not_searched:
  assumes "pg_entries p = Some es" and "pg_timer p = Some jo" and "search_options jo = Some so"
    and "length (rp_search (query_parts (pg_input p) so)) < opt_min so"
  shows "pg_timer (step p EvTimer) = None \<and> pg_area (step p EvTimer) = pg_area p"
  using assms by (simp add: step_def on_timer_def page_search_def showResults_def makeRE_def Let_def)

text \<open>
  C32: the last query wins: the result area only changes when the timer fires or the form
  is submitted, and then it shows the search for the text the input holds at that moment
  (the timer callback reads \<^verbatim>\<open>input.value\<close> when it runs), never a stale query.
\<close>

theorem area_changes_only_by_search:
  "pg_area (step p ev) \<noteq> pg_area p \<Longrightarrow>
   (ev = EvTimer \<or> ev = EvSubmit) \<and> pg_input (step p ev) = pg_input p \<and>
   (\<exists>es jo. pg_entries p = Some es \<and> pg_area (step p ev) = page_search es (pg_input p) (pg_area p) jo)"
  by (auto simp: step_def on_loaded_def on_input_def on_timer_def on_submit_def Let_def
      split: event.splits option.splits if_splits)

abbreviation loaded_page :: "jstring \<Rightarrow> page" where
  "loaded_page q \<equiv> step (step (init_page None True (showConfig default_js_options) [] []) (EvLoaded (js_lit ''Haus :: house''))) (EvType q)"

lemma reachable_loaded_page: "reachable (loaded_page q)"
  by (intro reachable.step) (rule reachable.init, simp)

theorem page_invariant_witness:
  "ok_store (pg_store (loaded_page (js_lit ''haus''))) \<and>
   (\<exists>jo. pg_timer (loaded_page (js_lit ''haus'')) = Some jo \<and>
      \<not> jo_end jo \<and> (\<exists>so. search_options jo = Some so))"
proof -
  have "\<exists>jo. pg_timer (loaded_page (js_lit ''haus'')) = Some jo"
    by (simp add: step_def on_loaded_def init_page_def xhr_eval on_input_def Let_def loadOptions_def getOptions_def clone_def
        json_val_def default_js_options_def js_truthy_def)
  with page_invariant [OF reachable_loaded_page] show ?thesis by blast
qed

theorem typing_then_timer_witness:
  "run (step (init_page None True (showConfig default_js_options) [] []) (EvLoaded (js_lit ''Haus :: house'')))
     (map EvType [js_lit ''h'', js_lit ''ha'', js_lit ''haus''] @ [EvTimer]) =
   (step (init_page None True (showConfig default_js_options) [] []) (EvLoaded (js_lit ''Haus :: house'')))
     \<lparr>pg_input := js_lit ''haus'', pg_submit_shown := True, pg_timer := None,
      pg_area := page_search (getEntries (js_lit ''Haus :: house'')) (js_lit ''haus'') []
        ((getOptions (pg_store (init_page None True (showConfig default_js_options) [] [])))\<lparr>jo_end := False\<rparr>)\<rparr>"
proof -
  let ?p = "step (init_page None True (showConfig default_js_options) [] []) (EvLoaded (js_lit ''Haus :: house''))"
  have "pg_entries ?p = Some (getEntries (js_lit ''Haus :: house''))"
    by (simp add: step_def on_loaded_def init_page_def xhr_eval)
  moreover have "js_truthy (jo_timeout (getOptions (pg_store ?p)))"
    by (simp add: step_def on_loaded_def init_page_def xhr_eval loadOptions_def getOptions_def clone_def json_val_def
        default_js_options_def js_truthy_def)
  ultimately show ?thesis
    using typing_then_timer [of ?p _ "[js_lit ''h'', js_lit ''ha'', js_lit ''haus'']"]
    by (simp add: step_def on_loaded_def init_page_def xhr_eval js_lit_def)
qed

theorem submit_searches_witness:
  "\<exists>so re. opt_min so = 1 \<and> makeRE (js_lit ''haus'') so = Some re \<and>
     pg_timer (step (loaded_page (js_lit ''haus'')) EvSubmit) = None \<and>
     pg_area (step (loaded_page (js_lit ''haus'')) EvSubmit) =
       (case formatResult (getEntries (js_lit ''Haus :: house'')) re so of
          Inl e \<Rightarrow> pg_area (loaded_page (js_lit ''haus'')) | Inr a \<Rightarrow> a)"
proof -
  have e: "pg_entries (loaded_page (js_lit ''haus'')) = Some (getEntries (js_lit ''Haus :: house''))"
    and i: "pg_input (loaded_page (js_lit ''haus'')) = js_lit ''haus''"
    by (simp_all add: step_def on_loaded_def init_page_def xhr_eval on_input_def Let_def)
  have r: "rp_search (query_parts (pg_input (loaded_page (js_lit ''haus''))) default_options) \<noteq> []"
    unfolding i by (simp add: query_eval rx_eval)
  from submit_searches [OF reachable_loaded_page e r] show ?thesis unfolding i .
qed


theorem config_back_keeps_options_witness:
  "search_options (getOptions (pg_store (run (loaded_page (js_lit ''haus'')) [EvConfig, EvBack]))) =
   Some default_options"
proof -
  have "search_options (getOptions (pg_store (loaded_page (js_lit ''haus'')))) = Some default_options"
    by (simp add: step_def on_loaded_def init_page_def xhr_eval on_input_def Let_def loadOptions_def getOptions_def clone_def
        json_val_def search_options_def js_nat_def default_js_options_def default_options_def)
  with config_back_keeps_options [OF reachable_loaded_page] show ?thesis by simp
qed

theorem pending_search_survives_settings_witness:
  "pg_area (run (loaded_page (js_lit ''haus''))
     [EvConfig, EvEdit (showConfig (default_js_options\<lparr>jo_max := JNum (Fin 1)\<rparr>)), EvBack, EvTimer]) =
   page_search (getEntries (js_lit ''Haus :: house'')) (js_lit ''haus'') []
     ((getOptions (pg_store (loaded_page (js_lit ''haus''))))\<lparr>jo_end := False\<rparr>)"
proof -
  let ?p = "loaded_page (js_lit ''haus'')"
  have e: "pg_entries ?p = Some (getEntries (js_lit ''Haus :: house''))"
    and t: "pg_timer ?p = Some ((getOptions (pg_store ?p))\<lparr>jo_end := False\<rparr>)"
    and i: "pg_input ?p = js_lit ''haus''" and a: "pg_area ?p = []"
    by (simp_all add: step_def on_loaded_def init_page_def xhr_eval on_input_def Let_def getOptions_def clone_def loadOptions_def
        default_js_options_def json_val_def js_truthy_def)
  have "list_all settings_event [EvConfig, EvEdit (showConfig (default_js_options\<lparr>jo_max := JNum (Fin 1)\<rparr>)), EvBack]"
    by (simp add: settings_event_def)
  from pending_search_survives_settings [OF e t this] show ?thesis by (simp add: i a)
qed

theorem corpus_fixed_once_loaded_witness:
  "pg_entries (run (step (init_page None True (showConfig default_js_options) [] []) (EvLoaded (js_lit ''Haus :: house'')))
     [EvLoaded (js_lit ''Baum :: tree''), EvType (js_lit ''haus''), EvTimer]) =
   Some (getEntries (js_lit ''Haus :: house''))"
proof -
  have "pg_entries (step (init_page None True (showConfig default_js_options) [] []) (EvLoaded (js_lit ''Haus :: house''))) =
      Some (getEntries (js_lit ''Haus :: house''))"
    by (simp add: step_def on_loaded_def init_page_def xhr_eval)
  from corpus_fixed_once_loaded [OF reachable.step [OF reachable.init] this] show ?thesis by simp
qed

theorem no_search_before_corpus_witness:
  "pg_area (run (init_page None True (showConfig default_js_options) [] (js_lit ''<p>old</p>''))
     [EvType (js_lit ''haus''), EvSubmit, EvConfig, EvBack, EvTimer]) = js_lit ''<p>old</p>''"
proof -
  have "pg_entries (init_page None True (showConfig default_js_options) [] (js_lit ''<p>old</p>'')) = None"
    by (simp add: init_page_def)
  moreover have "\<not> list_ex is_load [EvType (js_lit ''haus''), EvSubmit, EvConfig, EvBack, EvTimer]"
    by (simp add: is_load_def)
  ultimately show ?thesis using no_search_before_corpus by (simp add: init_page_def)
qed

theorem short_query_not_searched_witness:
  "pg_area (step (loaded_page (js_lit ''ha'')) EvTimer) = []"
proof -
  let ?p = "loaded_page (js_lit ''ha'')"
  let ?jo = "(getOptions (pg_store ?p))\<lparr>jo_end := False\<rparr>"
  have e: "pg_entries ?p = Some (getEntries (js_lit ''Haus :: house''))"
    and t: "pg_timer ?p = Some ?jo" and i: "pg_input ?p = js_lit ''ha''" and a: "pg_area ?p = []"
    by (simp_all add: step_def on_loaded_def init_page_def xhr_eval on_input_def Let_def getOptions_def clone_def
        loadOptions_def default_js_options_def json_val_def js_truthy_def)
  have so: "search_options ?jo = Some (default_options\<lparr>opt_end := False\<rparr>)"
    by (simp add: step_def on_loaded_def init_page_def xhr_eval on_input_def Let_def getOptions_def clone_def
        loadOptions_def default_js_options_def json_val_def search_options_def js_nat_def default_options_def)
  have "length (rp_search (query_parts (pg_input ?p) (default_options\<lparr>opt_end := False\<rparr>))) <
        opt_min (default_options\<lparr>opt_end := False\<rparr>)"
    unfolding i by (simp add: query_eval rx_eval)
  from short_query_not_searched [OF e t so this] show ?thesis by (simp add: a)
qed

lemma baum_page:
  "pg_area (step (step (step (init_page None True (showConfig default_js_options) [] [])
      (EvLoaded (js_lit ''Baum :: tree''))) (EvType (js_lit ''haus''))) EvSubmit) =
   js_lit ''<p>No result</p>''"
proof -
  let ?so = "default_options\<lparr>opt_min := 1\<rparr>"
  have e: "getEntries (js_lit ''Baum :: tree'') = [js_lit ''Baum :: tree'']" by code_simp
  have a: "pg_area (step (step (step (init_page None True (showConfig default_js_options) [] [])
      (EvLoaded (js_lit ''Baum :: tree''))) (EvType (js_lit ''haus''))) EvSubmit) =
    page_search [js_lit ''Baum :: tree''] (js_lit ''haus'') []
      ((getOptions (pg_store (init_page None True (showConfig default_js_options) [] [])))\<lparr>jo_min := JNum (Fin 1)\<rparr>)"
    by (simp add: step_def on_loaded_def init_page_def xhr_eval on_input_def on_submit_def Let_def e)
  have so: "search_options ((getOptions (pg_store (init_page None True (showConfig default_js_options) [] [])))
      \<lparr>jo_min := JNum (Fin 1)\<rparr>) = Some ?so"
    by (simp add: init_page_def getOptions_def clone_def loadOptions_def default_js_options_def json_val_def
        search_options_def js_nat_def default_options_def)
  have m: "makeRE (js_lit ''haus'') ?so \<noteq> None \<and>
      \<not> contains (js_lit ''Baum :: tree'') (the (makeRE (js_lit ''haus'') ?so))"
    by (simp add: query_eval rx_eval)
  then obtain re where re: "makeRE (js_lit ''haus'') ?so = Some re"
    and nc: "\<not> contains (js_lit ''Baum :: tree'') re" by auto
  have "formatResult [js_lit ''Baum :: tree''] re ?so = Inr (js_lit ''<p>No result</p>'')"
    using nc by (simp add: formatResult_def rank_result_def weigh_def)
  then show ?thesis using a so re by (simp add: page_search_def showResults_def)
qed

theorem area_changes_only_by_search_witness:
  "\<exists>es jo. pg_entries (step (step (init_page None True (showConfig default_js_options) [] [])
      (EvLoaded (js_lit ''Baum :: tree''))) (EvType (js_lit ''haus''))) = Some es \<and>
    pg_area (step (step (step (init_page None True (showConfig default_js_options) [] [])
      (EvLoaded (js_lit ''Baum :: tree''))) (EvType (js_lit ''haus''))) EvSubmit) =
    page_search es (js_lit ''haus'') [] jo"
proof -
  let ?p = "step (step (init_page None True (showConfig default_js_options) [] [])
      (EvLoaded (js_lit ''Baum :: tree''))) (EvType (js_lit ''haus''))"
  have i: "pg_input ?p = js_lit ''haus''" and a: "pg_area ?p = []"
    by (simp_all add: step_def on_loaded_def init_page_def xhr_eval on_input_def Let_def)
  have "pg_area (step ?p EvSubmit) \<noteq> pg_area ?p"
    unfolding baum_page a by (simp add: js_lit_def)
  from area_changes_only_by_search [OF this] show ?thesis unfolding i a by blast
qed

end
