(* ===== verification/Toggle.thy ===== *)
theory Toggle
  imports Formatter "HOL-Library.While_Combinator"
begin

text \<open>
  Row toggling on the result page: \<^verbatim>\<open>toggle\<close> (lines 156--165 of
  \<^verbatim>\<open>src/res/deng.js\<close>), \<^verbatim>\<open>getParent\<close> (167--172) and the click handler of
  \<^verbatim>\<open>initToggle\<close> (174--181). The rows of the result table are a list of
  \<open>dom_row\<close>s, each with its role class and the two classes \<^verbatim>\<open>open\<close> and
  \<^verbatim>\<open>closed\<close>; \<^verbatim>\<open>nextSibling\<close> is the next element of the list. An element and its
  ancestors, up to the document, are the list \<open>chain\<close> that \<^verbatim>\<open>parentElement\<close> walks.
\<close>

record dom_row =
  dom_role :: row_role
  dom_open :: bool
  dom_closed :: bool

text \<open>The row that \<open>render_row\<close> writes for a display row (line 92).\<close>

definition dom_of :: "display_row \<Rightarrow> dom_row" where
  "dom_of r = \<lparr>dom_role = dr_role r, dom_open = dr_open r, dom_closed = \<not> dr_open r\<rparr>"

text \<open>Lines 158--159: \<^verbatim>\<open>classList.toggle('open')\<close> and \<^verbatim>\<open>toggle('closed')\<close>.\<close>

definition flip_row :: "dom_row \<Rightarrow> dom_row" where
  "flip_row r = r\<lparr>dom_open := \<not> dom_open r, dom_closed := \<not> dom_closed r\<rparr>"

text \<open>
  The loop of lines 157--164 on the clicked row and its following siblings: flip the row,
  go to the next sibling, stop when there is none or it is not a \<^verbatim>\<open>sub-line\<close>.
\<close>

fun toggle_seq :: "dom_row list \<Rightarrow> dom_row list" where
  "toggle_seq [] = []"
| "toggle_seq (r # rs) =
     flip_row r # (if rs \<noteq> [] \<and> dom_role (hd rs) = SubLine then toggle_seq rs else rs)"

definition toggle :: "dom_row list \<Rightarrow> nat \<Rightarrow> dom_row list" where
  "toggle rows i = take i rows @ toggle_seq (drop i rows)"

text \<open>
  The loop of lines 156--165 as the code writes it: \<^verbatim>\<open>while (true)\<close> over a cursor
  \<open>Some k\<close> on the current row, \<open>None\<close> once the \<^verbatim>\<open>return\<close> of line 162 is taken.
  \<open>while_option\<close> is \<open>None\<close> when the loop does not end.
\<close>

definition toggle_body :: "dom_row list \<times> nat option \<Rightarrow> dom_row list \<times> nat option" where
  "toggle_body s =
     (case s of (rs, None) \<Rightarrow> (rs, None)
      | (rs, Some k) \<Rightarrow>
          (let rs' = rs[k := flip_row (rs ! k)]; k' = Suc k
           in (rs', if k' < length rs' \<and> dom_role (rs' ! k') = SubLine then Some k' else None)))"

definition toggle_loop :: "dom_row list \<Rightarrow> nat \<Rightarrow> (dom_row list \<times> nat option) option" where
  "toggle_loop rows i = while_option (\<lambda>s. snd s \<noteq> None) toggle_body (rows, Some i)"

datatype dom_node = NRow nat | NElem jstring

definition node_tag :: "dom_node \<Rightarrow> jstring" where
  "node_tag n = (case n of NRow i \<Rightarrow> js_lit ''TR'' | NElem t \<Rightarrow> t)"

text \<open>Lines 167--172: walk up the parents until the tag name matches.\<close>

fun getParent :: "dom_node list \<Rightarrow> jstring \<Rightarrow> dom_node option" where
  "getParent [] t = None"
| "getParent (el # els) t = (if node_tag el \<noteq> t then getParent els t else Some el)"

text \<open>Lines 175--180: the click handler of the result area.\<close>

definition on_click :: "dom_row list \<Rightarrow> dom_node list \<Rightarrow> dom_row list" where
  "on_click rows chain =
     (case getParent chain (js_lit ''TR'') of
        Some (NRow i) \<Rightarrow>
          if i < length rows \<and> dom_role (rows ! i) = MainLine then toggle rows i else rows
      | _ \<Rightarrow> rows)"

text \<open>The rows of one corpus line: a first row that is not a sub-line, then sub-lines.\<close>

definition line_group :: "dom_row list \<Rightarrow> bool" where
  "line_group rs \<longleftrightarrow> rs \<noteq> [] \<and> dom_role (hd rs) \<noteq> SubLine \<and> (\<forall>r\<in>set (tl rs). dom_role r = SubLine)"

subsection \<open>Lemmas on toggling\<close>

lemma flip_flip [simp]: "flip_row (flip_row r) = r"
  by (simp add: flip_row_def)

lemma dom_role_flip [simp]: "dom_role (flip_row r) = dom_role r"
  by (simp add: flip_row_def)

lemma toggle_seq_length [simp]: "length (toggle_seq rs) = length rs"
  by (induction rs rule: toggle_seq.induct) auto

lemma hd_toggle_seq_role: "rs \<noteq> [] \<Longrightarrow> dom_role (hd (toggle_seq rs)) = dom_role (hd rs)"
  by (cases rs) auto

lemma toggle_seq_involution: "toggle_seq (toggle_seq rs) = rs"
proof (induction rs rule: toggle_seq.induct)
  case 1
  then show ?case by simp
next
  case (2 r rs)
  show ?case
  proof (cases "rs \<noteq> [] \<and> dom_role (hd rs) = SubLine")
    case True
    then have "toggle_seq rs \<noteq> [] \<and> dom_role (hd (toggle_seq rs)) = SubLine"
      using hd_toggle_seq_role [of rs] by (cases rs) auto
    with True 2 show ?thesis by simp
  next
    case False
    have "toggle_seq (toggle_seq (r # rs)) = toggle_seq (flip_row r # rs)"
      by (simp only: toggle_seq.simps(2) if_not_P [OF False])
    also have "\<dots> = r # rs"
      by (simp only: toggle_seq.simps(2) if_not_P [OF False] flip_flip)
    finally show ?thesis .
  qed
qed

lemma toggle_seq_group:
  "(\<forall>s\<in>set subs. dom_role s = SubLine) \<Longrightarrow> (post = [] \<or> dom_role (hd post) \<noteq> SubLine) \<Longrightarrow>
   toggle_seq (m # subs @ post) = map flip_row (m # subs) @ post"
proof (induction subs arbitrary: m)
  case Nil
  then show ?case by (cases post) auto
next
  case (Cons s subs)
  then show ?case by simp
qed

lemma map_eq_replicate_mem: "map f xs = replicate n c \<Longrightarrow> x \<in> set xs \<Longrightarrow> f x = c"
  by (metis imageI in_set_replicate list.set_map)

lemma format_rows_line_group:
  "format_rows line hl = Inr rows \<Longrightarrow> line_group (map dom_of rows)"
proof -
  assume "format_rows line hl = Inr rows"
  then obtain ps where ps: "ps \<noteq> []"
    and rows: "rows = row_roles (\<not> pair_matches hl (hd ps))
             (if pair_matches hl (hd ps) then ps else hd ps # filter (pair_matches hl) (tl ps))"
    by (blast dest: format_rows_Inr)
  let ?kept = "if pair_matches hl (hd ps) then ps else hd ps # filter (pair_matches hl) (tl ps)"
  have "map dr_role rows = (if ?kept = [] then [] else if length ?kept = 1 then [OnlyLine]
          else MainLine # replicate (length ?kept - 1) SubLine)"
    using row_roles_shape unfolding rows by blast
  moreover have "?kept \<noteq> []" using ps by simp
  ultimately show ?thesis
    by (cases rows) (auto simp: line_group_def dom_of_def split: if_splits dest: map_eq_replicate_mem)
qed

lemma format_rows_first_role:
  "format_rows line hl = Inr rows \<Longrightarrow>
   rows \<noteq> [] \<and> dr_role (hd rows) = (if length rows = 1 then OnlyLine else MainLine)"
proof -
  assume "format_rows line hl = Inr rows"
  then obtain ps where ps: "ps \<noteq> []"
    and rows: "rows = row_roles (\<not> pair_matches hl (hd ps))
             (if pair_matches hl (hd ps) then ps else hd ps # filter (pair_matches hl) (tl ps))"
    by (blast dest: format_rows_Inr)
  let ?kept = "if pair_matches hl (hd ps) then ps else hd ps # filter (pair_matches hl) (tl ps)"
  have "map dr_role rows = (if ?kept = [] then [] else if length ?kept = 1 then [OnlyLine]
          else MainLine # replicate (length ?kept - 1) SubLine)"
    and "length rows = length ?kept"
    using row_roles_shape unfolding rows by (blast, simp add: row_roles_def)
  moreover have "?kept \<noteq> []" using ps by simp
  ultimately show ?thesis by (cases rows) (auto split: if_splits)
qed

lemma toggle_loop_rule:
  assumes "P (rows, Some i)" and "\<And>rs k. P (rs, Some k) \<Longrightarrow> P (toggle_body (rs, Some k))"
  shows "\<exists>t. toggle_loop rows i = Some t \<and> P t \<and> snd t = None"
proof -
  let ?b = "\<lambda>s :: dom_row list \<times> nat option. snd s \<noteq> None"
  let ?f = "\<lambda>s :: dom_row list \<times> nat option. case snd s of None \<Rightarrow> 0 | Some k \<Rightarrow> Suc (length (fst s) - k)"
  have dec: "?f (toggle_body s) < ?f s" if "?b s" for s
  proof -
    from that obtain k where k: "snd s = Some k" by auto
    then obtain rs where s: "s = (rs, Some k)" by (cases s) simp
    show ?thesis unfolding s by (auto simp: toggle_body_def Let_def)
  qed
  obtain t where t: "while_option ?b toggle_body (rows, Some i) = Some t"
    using measure_while_option_Some [where f = ?f and P = "\<lambda>_. True" and b = ?b and c = toggle_body]
      dec by blast
  have "P t"
  proof (rule while_option_rule [OF _ t])
    show "P (rows, Some i)" by (rule assms(1))
  next
    fix s
    assume "P s" and "?b s"
    then obtain rs k where "s = (rs, Some k)" and "P (rs, Some k)" by (cases s) auto
    then show "P (toggle_body s)" using assms(2) by simp
  qed
  moreover have "\<not> ?b t" by (rule while_option_stop [OF t])
  ultimately show ?thesis using t by (simp add: toggle_loop_def)
qed


lemma toggle_group:
  assumes "\<forall>g\<in>set gs. line_group g" and "k < length gs"
  shows "toggle (concat gs) (length (concat (take k gs))) =
         concat (take k gs) @ map flip_row (gs ! k) @ concat (drop (Suc k) gs)"
proof -
  have "gs = take k gs @ gs ! k # drop (Suc k) gs" using assms(2) by (simp add: id_take_nth_drop)
  then have split: "concat gs = concat (take k gs) @ gs ! k @ concat (drop (Suc k) gs)"
    by (metis concat.simps(2) concat_append)
  have "line_group (gs ! k)" using assms by simp
  then obtain m subs where g: "gs ! k = m # subs" and subs: "\<forall>s\<in>set subs. dom_role s = SubLine"
    by (cases "gs ! k") (auto simp: line_group_def)
  let ?post = "concat (drop (Suc k) gs)"
  have "?post = [] \<or> dom_role (hd ?post) \<noteq> SubLine"
  proof (cases "Suc k < length gs")
    case True
    then have "drop (Suc k) gs = gs ! Suc k # drop (Suc (Suc k)) gs" by (simp add: Cons_nth_drop_Suc)
    moreover have "line_group (gs ! Suc k)" using assms(1) True by simp
    ultimately show ?thesis by (auto simp: line_group_def)
  qed simp
  with subs have "toggle_seq (m # subs @ ?post) = map flip_row (m # subs) @ ?post"
    by (rule toggle_seq_group)
  then show ?thesis by (simp add: toggle_def split g)
qed


subsection \<open>Properties of toggling\<close>

lemma toggle_involution: "toggle (toggle rows i) i = rows"
  by (cases "i \<le> length rows") (simp_all add: toggle_def toggle_seq_involution min_def)


text \<open>
  C27: on rows made of line groups (a first row that is not a sub-line, then sub-lines),
  toggling the first row of a group flips the classes of exactly that group's rows and
  leaves all other rows alone: the loop stops at the next line.
\<close>

theorem toggle_line_group:
  assumes "\<forall>g\<in>set gs. line_group g" and "k < length gs"
  shows "toggle (concat gs) (length (concat (take k gs))) =
         concat (take k gs) @ map flip_row (gs ! k) @ concat (drop (Suc k) gs)"
  using assms by (rule toggle_group)

text \<open>
  C26: on a result table rendered by \<^verbatim>\<open>formatLine\<close>, a click inside the first row of
  a line flips the open/closed classes of exactly that line's rows when the line has
  several rows, and changes nothing when the line is a single only-line row.
\<close>

theorem click_line_rows:
  assumes "list_all2 (\<lambda>l rs. format_rows l hl = Inr rs) lines rowss" and "k < length rowss"
    and "getParent chain (js_lit ''TR'') =
         Some (NRow (length (concat (take k (map (map dom_of) rowss)))))"
  shows "on_click (concat (map (map dom_of) rowss)) chain =
    (if length (rowss ! k) = 1 then concat (map (map dom_of) rowss)
     else concat (take k (map (map dom_of) rowss)) @ map flip_row (map dom_of (rowss ! k)) @
          concat (drop (Suc k) (map (map dom_of) rowss)))"
proof -
  let ?gs = "map (map dom_of) rowss"
  let ?i = "length (concat (take k ?gs))"
  have fr: "format_rows (lines ! k) hl = Inr (rowss ! k)"
    using assms(1,2) by (simp add: list_all2_conv_all_nth)
  have groups: "\<forall>g\<in>set ?gs. line_group g"
  proof
    fix g
    assume "g \<in> set ?gs"
    then obtain j where j: "j < length rowss" and g: "g = map dom_of (rowss ! j)"
      by (auto simp: in_set_conv_nth)
    from assms(1) j have "format_rows (lines ! j) hl = Inr (rowss ! j)"
      by (simp add: list_all2_conv_all_nth)
    then show "line_group g" unfolding g by (rule format_rows_line_group)
  qed
  have k: "k < length ?gs" using assms(2) by simp
  have tg: "toggle (concat ?gs) ?i = concat (take k ?gs) @ map flip_row (?gs ! k) @ concat (drop (Suc k) ?gs)"
    by (rule toggle_group [OF groups k])
  have "concat ?gs = concat (take k ?gs) @ ?gs ! k @ concat (drop (Suc k) ?gs)"
    using k by (metis concat.simps(2) concat_append id_take_nth_drop)
  moreover obtain r rs where "rowss ! k = r # rs" and "dr_role r = (if length (rowss ! k) = 1 then OnlyLine else MainLine)"
    using format_rows_first_role [OF fr] by (cases "rowss ! k") auto
  ultimately have at: "?i < length (concat ?gs) \<and> dom_role (concat ?gs ! ?i) = dr_role r"
    using k by (simp add: nth_append dom_of_def)
  show ?thesis
    using assms(2,3) at tg \<open>dr_role r = _\<close> by (auto simp: on_click_def)
qed

text \<open>
  C23: the \<^verbatim>\<open>while (true)\<close> loop of \<^verbatim>\<open>toggle\<close> always returns, from any row of any table:
  each round moves the cursor one row down or leaves the loop.
\<close>

theorem toggle_loop_terminates: "\<exists>rs. toggle_loop rows i = Some (rs, None)"
proof -
  obtain t where "toggle_loop rows i = Some t" and "snd t = None"
    using toggle_loop_rule [where P = "\<lambda>_. True" and rows = rows and i = i] by blast
  then show ?thesis by (cases t) auto
qed

theorem toggle_line_group_witness:
  "toggle [\<lparr>dom_role = OnlyLine, dom_open = False, dom_closed = True\<rparr>,
           \<lparr>dom_role = MainLine, dom_open = False, dom_closed = True\<rparr>,
           \<lparr>dom_role = SubLine, dom_open = False, dom_closed = True\<rparr>,
           \<lparr>dom_role = MainLine, dom_open = False, dom_closed = True\<rparr>] 1 =
   [\<lparr>dom_role = OnlyLine, dom_open = False, dom_closed = True\<rparr>,
    \<lparr>dom_role = MainLine, dom_open = True, dom_closed = False\<rparr>,
    \<lparr>dom_role = SubLine, dom_open = True, dom_closed = False\<rparr>,
    \<lparr>dom_role = MainLine, dom_open = False, dom_closed = True\<rparr>]"
proof -
  let ?gs = "[[\<lparr>dom_role = OnlyLine, dom_open = False, dom_closed = True\<rparr>],
           [\<lparr>dom_role = MainLine, dom_open = False, dom_closed = True\<rparr>,
           \<lparr>dom_role = SubLine, dom_open = False, dom_closed = True\<rparr>],
           [\<lparr>dom_role = MainLine, dom_open = False, dom_closed = True\<rparr>]]"
  have "\<forall>g\<in>set ?gs. line_group g" by (simp add: line_group_def)
  from toggle_line_group [OF this, of 1] show ?thesis by (simp add: flip_row_def)
qed

theorem click_line_rows_witness:
  "on_click (concat (map (map dom_of)
      [[\<lparr>dr_de = js_lit ''Baum'', dr_en = Some (js_lit ''tree''), dr_role = OnlyLine, dr_open = True\<rparr>],
       [\<lparr>dr_de = js_lit ''Haus'', dr_en = Some (js_lit ''house''), dr_role = MainLine, dr_open = False\<rparr>,
        \<lparr>dr_de = js_lit ''Hof'', dr_en = Some (js_lit ''yard''), dr_role = SubLine, dr_open = False\<rparr>]]))
     [NElem (js_lit ''TD''), NRow 1, NElem (js_lit ''TABLE'')] =
   [\<lparr>dom_role = OnlyLine, dom_open = True, dom_closed = False\<rparr>,
    \<lparr>dom_role = MainLine, dom_open = True, dom_closed = False\<rparr>,
    \<lparr>dom_role = SubLine, dom_open = True, dom_closed = False\<rparr>]"
proof -
  let ?lines = "[js_lit ''Baum :: tree'', js_lit ''Haus | Hof :: house | yard'']"
  let ?rowss = "[[\<lparr>dr_de = js_lit ''Baum'', dr_en = Some (js_lit ''tree''), dr_role = OnlyLine, dr_open = True\<rparr>],
       [\<lparr>dr_de = js_lit ''Haus'', dr_en = Some (js_lit ''house''), dr_role = MainLine, dr_open = False\<rparr>,
        \<lparr>dr_de = js_lit ''Hof'', dr_en = Some (js_lit ''yard''), dr_role = SubLine, dr_open = False\<rparr>]]"
  have fr: "list_all2 (\<lambda>l rs. format_rows l haus_re = Inr rs) ?lines ?rowss"
    by (simp add: line_eval query_eval rx_eval)
  have gp: "getParent [NElem (js_lit ''TD''), NRow 1, NElem (js_lit ''TABLE'')] (js_lit ''TR'') =
      Some (NRow (length (concat (take 1 (map (map dom_of) ?rowss)))))"
    by (simp add: node_tag_def js_lit_def)
  from click_line_rows [OF fr _ gp] show ?thesis by (simp add: dom_of_def flip_row_def)
qed


end
