(* ===== verification/Spec2Isabelle.thy ===== *)
theory Spec2Isabelle
  imports Page Toggle
begin

text \<open>
  \<^bold>\<open>A verification library for deng\<close>, the German--English dictionary whose whole program
  is \<^verbatim>\<open>src/res/deng.js\<close>. The program reads the corpus \<^verbatim>\<open>res/de-en.txt\<close> (one
  entry per line, \<^verbatim>\<open>German side :: English side\<close>, sub-entries of a side separated by
  \<^verbatim>\<open> | \<close>), compiles the user's query into a JavaScript regular expression
  (\<^verbatim>\<open>makeRE\<close>), keeps the lines it matches (\<^verbatim>\<open>contains\<close>), weighs each kept line
  (\<^verbatim>\<open>getWeight\<close>), sorts by weight, cuts to \<^verbatim>\<open>options.max\<close> and renders HTML rows
  (\<^verbatim>\<open>formatResult\<close>, \<^verbatim>\<open>formatLine\<close>, \<^verbatim>\<open>formatEntry\<close>). Strings are JavaScript
  strings, lists of UTF-16 code units (\<open>jstring = nat list\<close>); ASCII literals are written
  \<open>js_lit ''...''\<close>, other code units as numbers.

  \<^bold>\<open>Theories.\<close>
  \<^item> \<open>Prelude\<close>: the string built-ins the code calls (\<^verbatim>\<open>split\<close> as \<open>js_split\<close>,
    \<^verbatim>\<open>join\<close>, \<^verbatim>\<open>indexOf\<close>, \<^verbatim>\<open>startsWith\<close>, array reads that may be
    \<^verbatim>\<open>undefined\<close> as \<open>js_nth\<close>), the \<^verbatim>\<open>i\<close>-flag canonicalisation \<open>canon\<close>,
    \<^verbatim>\<open>\s\<close> and \<^verbatim>\<open>\b\<close> character sets, the error type \<open>js_error\<close> (a thrown
    \<^verbatim>\<open>TypeError\<close> is \<open>Inl TypeError\<close>) and \<open>map_err\<close>, a map that stops at the
    first throw; with the shared lemmas (collection \<open>str_simps\<close>), among them the round
    trip of \<^verbatim>\<open>split\<close> and \<^verbatim>\<open>join\<close> (\<open>js_join_split\<close>).
  \<^item> \<open>Corpus\<close>: \<^verbatim>\<open>getFile\<close> (183--191) as calls on an XMLHttpRequest whose
    state and operations (\<open>xhr\<close>, \<open>xhr_open\<close>, \<open>xhr_overrideMimeType\<close>,
    \<open>xhr_send\<close>, which may throw an \<^verbatim>\<open>InvalidStateError\<close>) are modelled from the
    XMLHttpRequest standard and sequenced with \<open>sum_bind\<close>; and \<^verbatim>\<open>getEntries\<close>
    (193--199), the lines of the corpus file that are not empty and not comments.
  \<^item> \<open>JsRegex\<close>: the regular-expression engine, modelled from ECMA-262 since it is
    not in \<^verbatim>\<open>src/\<close>: the datatype \<open>rx\<close> of the fragment the program builds, the
    backtracking matcher \<open>rx_m\<close> (continuation passing, greedy and ordered as the
    standard says), \<open>re_exec\<close>/\<open>re_test\<close> (leftmost match of a non-global expression),
    and the declarative acceptance \<open>rx_acc\<close>; \<open>rx_m_sound\<close> and
    \<open>rx_m_complete\<close> relate them, \<open>re_exec_Some\<close> shows the match is leftmost.
    \<open>parse_pattern\<close> reads a pattern source the way the pattern grammar of ECMA-262
    (with the web-compatibility rules of its Annex B) reads it, for the atoms, escapes and
    quantifiers the program can produce, and rejects every other syntax.
  \<^item> \<open>Query\<close>: \<^verbatim>\<open>makeRE\<close> (lines 34--60) and \<^verbatim>\<open>contains\<close> (62--64). The locals
    \<^verbatim>\<open>start\<close>, \<^verbatim>\<open>end\<close>, \<^verbatim>\<open>search\<close> are the record \<open>re_parts\<close>; each statement
    of lines 38--53 is one definition (\<open>normalize_query\<close>, \<open>trailing_space_step\<close>,
    \<open>leading_star_step\<close>, \<open>trailing_star_step\<close>) composed in \<open>query_parts\<close>;
    \<^verbatim>\<open>escapeRE\<close> and the \<^verbatim>\<open>\*\<close> rewrite are \<open>escapeRE\<close>, \<open>star_to_class\<close>,
    and the expression they denote is \<open>search_rx\<close>. \<^verbatim>\<open>options\<close> is a record;
    \<open>default_options\<close> is the fallback of \<^verbatim>\<open>loadOptions\<close> (line 15).
    \<open>query_normal\<close> is the normal form lines 38--41 produce.
  \<^item> \<open>Scorer\<close>: \<^verbatim>\<open>getWeight\<close> (lines 100--126) with the cleaning of line 102
    (\<open>strip_annot\<close>, \<open>collapse_sp\<close>) and the two separator expressions of lines 111
    and 117; \<open>weight_spec\<close> is section 4.3 of the specification as string conditions, and
    \<open>sep_before_re_iff\<close>, \<open>sep_after_re_iff\<close> read the two expressions as such.
  \<^item> \<open>Formatter\<close>: \<^verbatim>\<open>formatEntry\<close> (66--72) and \<^verbatim>\<open>formatLine\<close> (74--98); the
    row structure (text, role, open/closed) is the record \<open>display_row\<close>, computed by
    \<open>format_rows\<close> and written out by \<open>render_row\<close>.
  \<^item> \<open>Ranker\<close>: \<^verbatim>\<open>formatResult\<close> (128--154) split into \<open>rank_result\<close> (filter,
    weigh, sort, cut) and the HTML, and \<^verbatim>\<open>showResults\<close> (201--207) as the new content
    of the result area. The sort is \<open>sort_key\<close> on the key \<open>(- weight, index)\<close>;
    \<open>sort_key_is_js_sort\<close> shows that this is the only order the comparator of line
    138 admits, so it is what any conforming \<^verbatim>\<open>Array.prototype.sort\<close> returns.
  \<^item> \<open>Settings\<close>: \<^verbatim>\<open>clone\<close>, \<^verbatim>\<open>loadOptions\<close>, \<^verbatim>\<open>getOptions\<close>,
    \<^verbatim>\<open>setOptions\<close> (lines 6--28), \<^verbatim>\<open>showConfig\<close> (209--217) and
    \<^verbatim>\<open>saveConfig\<close> (219--238) on the record
    \<open>store\<close> (\<^verbatim>\<open>currentOptions\<close>, the \<^verbatim>\<open>localStorage\<close> item, and whether
    storage accepts writes: a throwing \<^verbatim>\<open>setItem\<close> is caught and ignored, line 26,
    so the item keeps its old content). Option values are
    JavaScript numbers (\<open>js_num\<close>: \<open>NaN\<close>, the infinities, finite values as
    rationals) or \<^verbatim>\<open>null\<close> (\<open>js_val\<close>), since the JSON clone writes non-finite numbers
    as \<^verbatim>\<open>null\<close>; \<open>search_options\<close> reads them as the search's \<open>options\<close>.
  \<^item> \<open>Toggle\<close>: \<^verbatim>\<open>toggle\<close>, \<^verbatim>\<open>getParent\<close> and the click handler of
    \<^verbatim>\<open>initToggle\<close> (156--181) on the rows of the result table as a list of class
    states, \<open>dom_of\<close> being the row that \<open>render_row\<close> writes. The
    \<^verbatim>\<open>while (true)\<close> loop of \<^verbatim>\<open>toggle\<close> is \<open>toggle_loop\<close>, a \<open>while_option\<close>
    over a cursor; \<open>toggle\<close> is its recursive reading, and
    \<open>toggle_loop_eq_toggle\<close> shows the two compute the same rows.
  \<^item> \<open>Page\<close>: \<^verbatim>\<open>init\<close> (240--299) and the
    \<^verbatim>\<open>onload\<close> callback of \<^verbatim>\<open>getFile\<close> (185--187, \<open>on_loaded\<close>) as a
    deterministic step function \<open>step\<close> on the record \<open>page\<close> (settings, corpus,
    input text, result area, pending debounce timer, shown page, the settings form, the
    request of \<^verbatim>\<open>getFile\<close>, whose arrival is the only way the corpus gets in), one
    event per handler run; the config button fills the form (\<open>showConfig\<close>), the user
    edits it (\<open>EvEdit\<close>) and the back button saves what it holds;
    \<open>run\<close> folds it over a sequence of events and \<open>reachable\<close> is the inductive set
    of pages reachable from \<open>init_page\<close>. The timer callback reads the input when it
    fires and uses the options captured when it was set, as the closure of line 280 does.

  \<^bold>\<open>What is proved.\<close> The matcher is sound and complete for its declarative reading and
  finds the leftmost match. A plain query compiles to an expression matching exactly its
  occurrences at word boundaries (\<open>Query.contains_plain_word\<close>), a trailing \<^verbatim>\<open>*\<close>
  makes it a prefix search, and the source written by \<^verbatim>\<open>escapeRE\<close> and the
  \<^verbatim>\<open>\*\<close> rewrite reads back under the pattern grammar as exactly one literal atom per
  query character and \<^verbatim>\<open>\S*\<close> per \<^verbatim>\<open>*\<close> (\<open>Query.escapeRE_pattern\<close>). The
  weight is 0 exactly when the cleaned entry does not match, and
  \<^verbatim>\<open>getWeight\<close> throws exactly on matching entries without \<^verbatim>\<open> :: \<close> whose first
  sub-entry does not match. The result list is the first \<^verbatim>\<open>max\<close> matching entries
  by weight, then corpus order; ranking throws exactly when a matching entry makes
  \<^verbatim>\<open>getWeight\<close> throw; the page says \<^verbatim>\<open>No result\<close> exactly when nothing matches.
  The rows of a line have the roles and open/closed classes the code intends, an aligned
  line always renders, and a line whose German side has more sub-entries than its English
  side throws when its main entry matches; the highlight runs after the markup is
  inserted, so for every entry opening with an annotation the query \<^verbatim>\<open>small\<close> is
  marked inside the tag name \<^verbatim>\<open><small>\<close> (\<open>Formatter.formatEntry_marks_inside_tag\<close>).
  Every normalised query is in \<open>query_normal\<close> form, and a query typed with a trailing
  hyphen keeps it (the class of line 41 is a range): every match ends after a hyphen
  directly followed by a word character (\<open>Query.trailing_hyphen_kept\<close>). Whenever \<^verbatim>\<open>getWeight\<close> returns, it
  returns \<open>weight_spec\<close> (\<open>Scorer.getWeight_refines_spec\<close>).
  The loop of \<^verbatim>\<open>toggle\<close> always returns (\<open>Toggle.toggle_loop_terminates\<close>) and,
  started on the first row of a rendered line, flips exactly that line's rows
  (\<open>Toggle.toggle_loop_line_group\<close>).
  Clicking the first row of a rendered line flips exactly that line's rows, and twice
  restores them. Saving the settings form keeps the settings valid and has the effect
  \<open>Settings.saveConfig_search_view\<close> states; a maximum of \<open>+\<infinity>\<close> passes the
  checks but empties every later result page (\<open>Page.saved_infinite_max_hides_results\<close>).
  On the page, every reachable state keeps valid settings, typing followed by the timer
  runs one search for the last text with \<^verbatim>\<open>end\<close> off, a pending search survives
  any use of the settings page and runs with the options captured when it was set,
  submitting searches with \<^verbatim>\<open>min = 1\<close>, opening and closing the settings without an
  edit changes no option a search reads, and \<^verbatim>\<open>getEntries\<close> returns exactly the
  non-comment lines of the corpus file; once delivered the corpus never changes, and
  before it arrives no event changes the result area; every entry is a single non-empty
  line that is not a comment. The result area changes only on the timer or a submit, and then
  shows the search for the input as it is at that moment, so the last query wins
  (\<open>Page.area_changes_only_by_search\<close>). A query too short for \<^verbatim>\<open>min\<close> performs no search and
  leaves the result area as it was. A reload restores the options in use when storage
  accepts writes, and otherwise the options stored before the page was loaded
  (\<open>Page.reload_restores_options\<close>). The theory below adds the property that crosses components: the filter
  and the scorer agree on entries without markup; it also computes the end-to-end example
  of the specification.

  \<^bold>\<open>Bounds and fuel.\<close> No fuel is used: every loop of the program is structural
  recursion or a \<^verbatim>\<open>function\<close> whose termination is proved (\<open>js_split\<close>,
  \<open>strip_annot\<close>, \<open>collapse_ws\<close>, \<open>collapse_sp\<close>, \<open>wrap_angle\<close>,
  \<open>wrap_optional\<close>), and the matcher recurses on the pattern, trying at most
  \<open>length s + 1\<close> positions per star. The one loop kept in its \<^verbatim>\<open>while\<close> form,
  \<open>toggle_loop\<close>, is a \<open>while_option\<close>, whose \<open>None\<close> would be divergence;
  \<open>Toggle.toggle_loop_terminates\<close> shows it is never \<open>None\<close>, with the measure
  "rows left below the cursor".

  \<^bold>\<open>Not modelled.\<close> The network transfer of \<^verbatim>\<open>getFile\<close>'s request (the page
  receives the response text as an event), a \<^verbatim>\<open>localStorage\<close> item that parses to JSON other than an
  options object (the program never writes one), how \<^verbatim>\<open>Number\<close> parses
  text the user types (the form holds the numbers \<^verbatim>\<open>Number\<close> reads; what
  \<^verbatim>\<open>showConfig\<close> writes is read back exactly, since \<^verbatim>\<open>getOptions\<close> only
  yields \<^verbatim>\<open>null\<close> and finite numbers), \<^verbatim>\<open>toggleSubmitConfig\<close>'s button styles
  beyond a flag, scrolling, and the form's
  default submission before the corpus has arrived. The page keeps the result area as
  HTML text; the toggling theory works on the rows that text describes. Case folding under the
  \<^verbatim>\<open>i\<close> flag is modelled for Latin-1, the range the corpus uses: \<open>canon\<close>
  leaves code units from 256 up unchanged, where ECMAScript would consult the full
  Unicode case tables.
\<close>

section \<open>Properties across components\<close>

text \<open>Texts without two adjacent spaces: \<open>collapse_sp\<close> leaves them alone.\<close>

fun no_dbl_sp :: "jstring \<Rightarrow> bool" where
  "no_dbl_sp (a # b # cs) = (\<not> (a = u_sp \<and> b = u_sp) \<and> no_dbl_sp (b # cs))"
| "no_dbl_sp _ = True"

subsection \<open>Entries without markup\<close>

lemma no_dbl_sp_Cons: "no_dbl_sp (c # cs) \<Longrightarrow> no_dbl_sp cs"
  by (cases cs) auto

lemma collapse_sp_id: "no_dbl_sp e \<Longrightarrow> collapse_sp e = e"
proof (induction e)
  case Nil
  then show ?case by simp
next
  case (Cons c cs)
  then have ih: "collapse_sp cs = cs" using no_dbl_sp_Cons by blast
  have "c = u_sp \<Longrightarrow> dropWhile (\<lambda>x. x = u_sp) cs = cs"
    using Cons.prems by (cases cs) auto
  with ih show ?case by simp
qed

lemma strip_annot_id: "(\<forall>c\<in>set e. annot_close c = None) \<Longrightarrow> strip_annot e = e"
  by (induction e) simp_all

lemma clean_entry_id:
  "(\<forall>c\<in>set e. annot_close c = None) \<Longrightarrow> no_dbl_sp e \<Longrightarrow> clean_entry e = e"
  by (simp add: clean_entry_def strip_annot_id collapse_sp_id)

text \<open>
  C33: the filter and the scorer agree on entries without markup: an entry with no
  \<^verbatim>\<open>( [ { <\<close> and no double space that the search expression matches weighs at least
  1. (With markup this fails: see \<open>Scorer.getWeight_zero_iff\<close>.)
\<close>

theorem matched_plain_entry_weight_pos:
  assumes "\<forall>c\<in>set e. annot_close c = None" and "no_dbl_sp e" and "contains e re"
  shows "getWeight e re \<noteq> Inr 0"
proof -
  have "re_exec re (clean_entry e) \<noteq> None"
    using assms by (simp add: clean_entry_id contains_def re_test_exec)
  then show ?thesis by (auto simp: getWeight_def Let_def split: option.splits if_splits)
qed

theorem matched_plain_entry_weight_pos_witness:
  "getWeight (js_lit ''Haus :: house'') haus_re \<noteq> Inr 0"
proof -
  have "(\<forall>c\<in>set (js_lit ''Haus :: house''). annot_close c = None) \<and> no_dbl_sp (js_lit ''Haus :: house'') \<and>
    contains (js_lit ''Haus :: house'') haus_re"
    by (simp add: annot_close_def query_eval rx_eval)
  then show ?thesis using matched_plain_entry_weight_pos by blast
qed

subsection \<open>The examples of the specification\<close>

text \<open>
  The end-to-end example of the specification: on the corpus \<^verbatim>\<open>Haus :: house\<close>,
  \<^verbatim>\<open>M?uschen :: little mouse\<close> (the code unit 228, a-umlaut, in place of \<^verbatim>\<open>?\<close>)
  the default query \<^verbatim>\<open>haus\<close> shows only the first line, as one closed only-line row.
  Only \<^verbatim>\<open>Haus\<close> is highlighted: \<^verbatim>\<open>house\<close> does not match the expression.
\<close>

lemma spec_example_end_to_end:
  \<open>showResults [js_lit ''Haus :: house'', js_lit ''M'' @ [228] @ js_lit ''uschen :: little mouse'']
     (js_lit ''haus'') area default_options =
   Inr (js_lit ''<table><tr class="only-line closed"><td lang="de"><mark>Haus</mark></td><td lang="en">house</td></tr></table>'')\<close>
  by (simp add: showResults_def formatResult_def rank_result_def weigh_def rank_key_def rk_entry_def
      rk_weight_def rk_index_def formatLine_def render_row_def role_class_def line_eval entry_eval
      wrap_angle.simps wrap_optional.simps score_eval query_eval rx_eval)

end
